theory Spec2Isabelle
  imports Complex_Main "HOL-Library.Sublist"
begin

section \<open>Python values used by both programs\<close>

text \<open>
  Python \<^verbatim>\<open>bytes\<close> and \<^verbatim>\<open>str\<close> values are both modelled as lists of 8-bit characters.
  The wire protocol is ASCII; on ASCII text the string functions below are the ones of
  CPython (\<^verbatim>\<open>str.strip\<close>, \<^verbatim>\<open>str.split\<close>, \<^verbatim>\<open>str.rstrip\<close>, \<^verbatim>\<open>int\<close>, \<^verbatim>\<open>str\<close>).
\<close>

type_synonym bytes = string

definition nl :: string where
  "nl = [CHR 0x0A]"

text \<open>\<^verbatim>\<open>str.isspace\<close> on ASCII: tab, LF, VT, FF, CR, the separators 0x1C-0x1F and space.\<close>

definition is_space :: "char \<Rightarrow> bool" where
  "is_space c = (c \<in> set [CHR 0x09, CHR 0x0A, CHR 0x0B, CHR 0x0C, CHR 0x0D,
                            CHR 0x1C, CHR 0x1D, CHR 0x1E, CHR 0x1F, CHR 0x20])"

definition strip :: "string \<Rightarrow> string" where
  "strip s = rev (dropWhile is_space (rev (dropWhile is_space s)))"

text \<open>\<^verbatim>\<open>s.rstrip("\n")\<close>: every trailing line feed is removed.\<close>

definition rstrip_nl :: "string \<Rightarrow> string" where
  "rstrip_nl s = rev (dropWhile (\<lambda>c. c = CHR 0x0A) (rev s))"

definition startswith :: "string \<Rightarrow> string \<Rightarrow> bool" where
  "startswith s p = (take (length p) s = p)"

definition endswith :: "string \<Rightarrow> string \<Rightarrow> bool" where
  "endswith s p = (length p \<le> length s \<and> drop (length s - length p) s = p)"

text \<open>
  \<^verbatim>\<open>s.split(maxsplit=k)\<close>: runs of whitespace separate the words; after \<open>k\<close> splits the
  rest of the string, without its leading whitespace, is the last word.
\<close>

fun split_ws :: "nat \<Rightarrow> string \<Rightarrow> string list" where
  "split_ws 0 s = (let r = dropWhile is_space s in if r = [] then [] else [r])"
| "split_ws (Suc k) s =
     (let r = dropWhile is_space s
      in if r = [] then []
         else takeWhile (\<lambda>c. \<not> is_space c) r # split_ws k (dropWhile (\<lambda>c. \<not> is_space c) r))"

text \<open>
  \<^verbatim>\<open>int(s)\<close> for an ASCII string: surrounding C whitespace is dropped, one sign is allowed,
  and the digits may be grouped by single underscores. \<open>None\<close> stands for \<^verbatim>\<open>ValueError\<close>.
\<close>

definition c_space :: "char \<Rightarrow> bool" where
  "c_space c = (c \<in> set [CHR 0x09, CHR 0x0A, CHR 0x0B, CHR 0x0C, CHR 0x0D, CHR 0x20])"

definition is_digit :: "char \<Rightarrow> bool" where
  "is_digit c = (c \<in> set ''0123456789'')"

definition digit_val :: "char \<Rightarrow> int" where
  "digit_val c = int (of_char c) - 48"

fun digits_ok :: "bool \<Rightarrow> string \<Rightarrow> bool" where
  "digits_ok after_digit [] = after_digit"
| "digits_ok after_digit (c # cs) =
     (if is_digit c then digits_ok True cs
      else if c = CHR ''_'' \<and> after_digit then digits_ok False cs
      else False)"

definition digits_val :: "string \<Rightarrow> int" where
  "digits_val s = foldl (\<lambda>a c. if c = CHR ''_'' then a else 10 * a + digit_val c) 0 s"

definition py_int :: "string \<Rightarrow> int option" where
  "py_int s =
     (let t = rev (dropWhile c_space (rev (dropWhile c_space s)))
      in case t of
           [] \<Rightarrow> None
         | c # cs \<Rightarrow>
             (if c = CHR ''-'' then (if digits_ok False cs then Some (- digits_val cs) else None)
              else if c = CHR ''+'' then (if digits_ok False cs then Some (digits_val cs) else None)
              else (if digits_ok False t then Some (digits_val t) else None)))"

text \<open>\<^verbatim>\<open>str(i)\<close> for an integer, as the f-strings of the source print it.\<close>

function nat_digits :: "nat \<Rightarrow> string" where
  "nat_digits n =
     (if n < 10 then [''0123456789'' ! n]
      else nat_digits (n div 10) @ [''0123456789'' ! (n mod 10)])"
  by pat_completeness auto
termination
  by (relation "measure (\<lambda>n. n)") auto

declare nat_digits.simps [simp del]

definition py_str :: "int \<Rightarrow> string" where
  "py_str i = (if i < 0 then ''-'' @ nat_digits (nat (- i)) else nat_digits (nat i))"

section \<open>POSIX paths and the filesystem\<close>

text \<open>
  The path functions are those of \<^verbatim>\<open>posixpath\<close>. \<^verbatim>\<open>os.path.abspath\<close> reads the current
  directory, which is a parameter of the model (an absolute path).
\<close>

fun split_on :: "char \<Rightarrow> string \<Rightarrow> string list" where
  "split_on c [] = [[]]"
| "split_on c (x # xs) =
     (if x = c then [] # split_on c xs
      else (case split_on c xs of [] \<Rightarrow> [[x]] | w # ws \<Rightarrow> (x # w) # ws))"

fun join_with :: "string \<Rightarrow> string list \<Rightarrow> string" where
  "join_with sep [] = []"
| "join_with sep [w] = w"
| "join_with sep (w # v # ws) = w @ sep @ join_with sep (v # ws)"

definition path_join :: "string \<Rightarrow> string \<Rightarrow> string" where
  "path_join a b =
     (if startswith b ''/'' then b
      else if a = [] \<or> endswith a ''/'' then a @ b
      else a @ ''/'' @ b)"

definition rstrip_slash :: "string \<Rightarrow> string" where
  "rstrip_slash s = rev (dropWhile (\<lambda>c. c = CHR ''/'') (rev s))"

text \<open>\<^verbatim>\<open>posixpath.dirname\<close>: the part up to the last slash, without trailing slashes unless
  it consists of slashes only.\<close>

definition dirname :: "string \<Rightarrow> string" where
  "dirname p =
     (let head = rev (dropWhile (\<lambda>c. c \<noteq> CHR ''/'') (rev p))
      in if head \<noteq> [] \<and> head \<noteq> replicate (length head) (CHR ''/'') then rstrip_slash head
         else head)"

definition norm_step :: "bool \<Rightarrow> string list \<Rightarrow> string \<Rightarrow> string list" where
  "norm_step initial_slashes new_comps c =
     (if c = [] \<or> c = ''.'' then new_comps
      else if c \<noteq> ''..'' \<or> (\<not> initial_slashes \<and> new_comps = [])
               \<or> (new_comps \<noteq> [] \<and> last new_comps = ''..'')
           then new_comps @ [c]
      else if new_comps \<noteq> [] then butlast new_comps
      else new_comps)"

definition normpath :: "string \<Rightarrow> string" where
  "normpath p =
     (if p = [] then ''.''
      else
        (let initial_slashes =
               (if startswith p ''/'' then
                  (if startswith p ''//'' \<and> \<not> startswith p ''///'' then 2 else 1)
                else (0::nat));
             comps = foldl (norm_step (0 < initial_slashes)) [] (split_on (CHR ''/'') p);
             q = replicate initial_slashes (CHR ''/'') @ join_with ''/'' comps
         in if q = [] then ''.'' else q))"

definition abspath :: "string \<Rightarrow> string \<Rightarrow> string" where
  "abspath cwd p = normpath (if startswith p ''/'' then p else path_join cwd p)"

text \<open>
  The filesystem maps a resolved path (the components of the absolute, normalised path) to
  a regular file with its content, or to a directory. Symbolic links, permissions and
  devices are not modelled: a path is resolved lexically, and a primitive fails only for
  the reasons written out below. The root directory is the empty list of components.
\<close>

datatype node = File bytes | Dir

type_synonym filesystem = "string list \<Rightarrow> node option"

definition resolve :: "string \<Rightarrow> string \<Rightarrow> string list" where
  "resolve cwd p =
     foldl (norm_step True) [] (split_on (CHR ''/'') (if startswith p ''/'' then p else path_join cwd p))"

text \<open>Every file and directory lies in a directory, and the root is a directory.\<close>

definition wf_fs :: "filesystem \<Rightarrow> bool" where
  "wf_fs fs = (fs [] = Some Dir \<and> (\<forall>q n. fs q = Some n \<and> q \<noteq> [] \<longrightarrow> fs (butlast q) = Some Dir))"

datatype exn =
    ValueError string
  | FileNotFoundError string
  | NotADirectoryError string
  | FileExistsError string
  | IsADirectoryError string
  | OSError string
  | ReadError string

text \<open>\<^verbatim>\<open>str(e)\<close>, as the log lines and the \<^verbatim>\<open>ERR_RUN\<close> reply print an exception.\<close>

fun exn_str :: "exn \<Rightarrow> string" where
  "exn_str (ValueError s) = ''invalid literal for int() with base 10: '' @ [CHR 0x27] @ s @ [CHR 0x27]"
| "exn_str (FileNotFoundError p) = ''[Errno 2] No such file or directory: '' @ [CHR 0x27] @ p @ [CHR 0x27]"
| "exn_str (NotADirectoryError p) = ''[Errno 20] Not a directory: '' @ [CHR 0x27] @ p @ [CHR 0x27]"
| "exn_str (FileExistsError p) = ''[Errno 17] File exists: '' @ [CHR 0x27] @ p @ [CHR 0x27]"
| "exn_str (IsADirectoryError p) = ''[Errno 21] Is a directory: '' @ [CHR 0x27] @ p @ [CHR 0x27]"
| "exn_str (OSError s) = s"
| "exn_str (ReadError s) = s"

definition fs_exists :: "string \<Rightarrow> filesystem \<Rightarrow> string \<Rightarrow> bool" where
  "fs_exists cwd fs p = (p \<noteq> [] \<and> fs (resolve cwd p) \<noteq> None)"

fun is_file :: "node option \<Rightarrow> bool" where
  "is_file (Some (File d)) = True"
| "is_file other = False"

text \<open>
  \<^verbatim>\<open>os.makedirs(p, exist_ok=True)\<close>: every missing directory on the way to \<open>p\<close> is created.
  It fails on the empty path, when \<open>p\<close> is a regular file, and when a regular file stands
  where a directory is needed.
\<close>

definition fs_makedirs :: "string \<Rightarrow> filesystem \<Rightarrow> string \<Rightarrow> exn + filesystem" where
  "fs_makedirs cwd fs p =
     (let r = resolve cwd p
      in if p = [] then Inl (FileNotFoundError p)
         else if \<exists>q \<in> set (prefixes r). q \<noteq> r \<and> is_file (fs q) then Inl (NotADirectoryError p)
         else if is_file (fs r) then Inl (FileExistsError p)
         else Inr (\<lambda>q. if prefix q r then Some Dir else fs q))"

text \<open>
  \<^verbatim>\<open>shutil.rmtree(p)\<close>: the directory and everything below it is removed, unless the
  removal meets an obstacle (the path is a symbolic link, an entry cannot be deleted).
  The obstacles are not part of the filesystem above; they are given from outside: for
  the resolved path of a directory, \<open>faults\<close> is \<open>None\<close> when there is no obstacle, or the
  exception that \<^verbatim>\<open>rmtree\<close> raises together with the paths below the directory that are
  still there when it is raised. The root directory itself cannot be removed, so the
  call on the root always raises: \<open>root_fault\<close> is its exception and what is still there.
\<close>

type_synonym fault = "exn \<times> (string list \<Rightarrow> bool)"

definition fs_rmtree ::
  "(string list \<Rightarrow> fault option) \<Rightarrow> fault \<Rightarrow> string \<Rightarrow> filesystem \<Rightarrow> string \<Rightarrow> exn option \<times> filesystem"
where
  "fs_rmtree faults root_fault cwd fs p =
     (let r = resolve cwd p
      in if p = [] then (Some (FileNotFoundError p), fs)
         else case fs r of
                None \<Rightarrow> (Some (FileNotFoundError p), fs)
              | Some (File d) \<Rightarrow> (Some (NotADirectoryError p), fs)
              | Some Dir \<Rightarrow>
                  (case (if r = [] then Some root_fault else faults r) of
                     Some (e, kept) \<Rightarrow>
                       (Some e, (\<lambda>q. if strict_prefix r q \<and> \<not> kept q then None else fs q))
                   | None \<Rightarrow> (None, (\<lambda>q. if prefix r q then None else fs q))))"

text \<open>
  \<^verbatim>\<open>open(p, "wb")\<close> (\<open>trunc\<close>) and \<^verbatim>\<open>open(p, "a")\<close>: the file is created when it is missing
  and its directory exists; \<^verbatim>\<open>"wb"\<close> empties an existing file.
\<close>

definition fs_open :: "bool \<Rightarrow> string \<Rightarrow> filesystem \<Rightarrow> string \<Rightarrow> exn + filesystem" where
  "fs_open trunc cwd fs p =
     (let r = resolve cwd p
      in if p = [] then Inl (FileNotFoundError p)
         else case fs r of
                Some Dir \<Rightarrow> Inl (IsADirectoryError p)
              | Some (File d) \<Rightarrow> Inr (if trunc then fs(r \<mapsto> File []) else fs)
              | None \<Rightarrow>
                  (case fs (butlast r) of
                     Some Dir \<Rightarrow> Inr (fs(r \<mapsto> File []))
                   | Some (File d) \<Rightarrow> Inl (NotADirectoryError p)
                   | None \<Rightarrow> Inl (FileNotFoundError p)))"

text \<open>Writing to an open file appends to its content.\<close>

definition fs_write :: "filesystem \<Rightarrow> string list \<Rightarrow> bytes \<Rightarrow> filesystem" where
  "fs_write fs r data = (case fs r of Some (File d) \<Rightarrow> fs(r \<mapsto> File (d @ data)) | other \<Rightarrow> fs)"

definition fs_remove :: "string \<Rightarrow> filesystem \<Rightarrow> string \<Rightarrow> exn + filesystem" where
  "fs_remove cwd fs p =
     (let r = resolve cwd p
      in if p = [] then Inl (FileNotFoundError p)
         else case fs r of
                None \<Rightarrow> Inl (FileNotFoundError p)
              | Some Dir \<Rightarrow> Inl (IsADirectoryError p)
              | Some (File d) \<Rightarrow> Inr (fs(r := None)))"


section \<open>The agent (receiver.py)\<close>

subsection \<open>State, environment and effects\<close>

text \<open>
  The configuration dictionary, as \<^verbatim>\<open>json.loads\<close> returns it: the keys the agent reads,
  each present or absent. JSON text that is no dictionary, or that gives a key a value of
  another type than the one listed, is outside the model.
\<close>

record config =
  cfg_directory :: "string option"
  cfg_main :: "string option"
  cfg_args :: "string list option"
  cfg_include :: "string list option"
  cfg_exclude :: "string list option"

text \<open>
  A spawned subprocess, as the agent sees it: the lines that iterating over its merged
  output yields (each with its line feed, the last one possibly without), and how the
  iteration ends: at end of output with the process exiting with a return code, with an
  exception raised by the read, or never.
\<close>

datatype proc_end = Exited int | StreamError exn | Hangs

record process =
  out_lines :: "string list"
  ending :: proc_end

datatype member = MFile string bytes | MDir string

text \<open>
  What the program does not define itself is a parameter: the home directory behind
  \<^verbatim>\<open>DEFAULT_APP_DIR\<close>, the current directory, the hash function (\<^verbatim>\<open>hashlib.sha256\<close>, hex
  digest), the JSON reader (\<^verbatim>\<open>json.loads(raw.decode())\<close>, \<open>Inl\<close> with the message of
  the exception), \<^verbatim>\<open>bytes.decode\<close>, the reader of a gzip-compressed tar archive (its
  members in order, or the message of the exception), \<^verbatim>\<open>subprocess.Popen\<close>, the clock
  behind the time stamps of the log (indexed by the number of effects so far), the
  text Python prints for a dictionary, and the obstacles that \<^verbatim>\<open>shutil.rmtree\<close> meets.
\<close>

record env =
  DEFAULT_APP_DIR :: string
  cwd :: string
  sha256 :: "bytes \<Rightarrow> string"
  json_loads :: "bytes \<Rightarrow> string + config"
  decode :: "bytes \<Rightarrow> string option"
  untar :: "bytes \<Rightarrow> string + member list"
  popen :: "string list \<Rightarrow> exn + process"
  utcnow :: "nat \<Rightarrow> string"
  repr_config :: "config \<Rightarrow> string"
  rmtree_fault :: "string list \<Rightarrow> fault option"
  rmtree_root :: fault

definition ARCHIVE_PATH :: "env \<Rightarrow> string" where
  "ARCHIVE_PATH env = path_join (DEFAULT_APP_DIR env) ''__upload__.tar.gz''"

definition LOG_PATH :: "env \<Rightarrow> string" where
  "LOG_PATH env = path_join (DEFAULT_APP_DIR env) ''upload.log''"

definition PROGRESS_INTERVAL :: int where
  "PROGRESS_INTERVAL = 65536"

text \<open>
  The effects of both programs, in the order in which they happen: a write to the serial
  port, a log line (the message; the line printed and appended to the log file carries a
  time stamp in front), a call of \<^verbatim>\<open>time.sleep\<close> with its seconds, the calls that change
  the filesystem, the spawn of the subprocess, and (controller) an upload attempt.
\<close>

datatype event =
    Tx bytes
  | Log string
  | Sleep rat
  | Makedirs string
  | Rmtree string
  | OpenWrite string
  | Remove string
  | Untar string string
  | Popen "string list"
  | Attempt int

text \<open>
  The state of the agent: the last accepted configuration (\<^verbatim>\<open>config\<close> of \<^verbatim>\<open>main\<close>), the
  bytes still to arrive on the serial port, the filesystem, and the effects so far.

  The incoming bytes are a list of bursts: one blocking call on the port sees the first
  burst and returns within the port's timeout with what it asked of it; the rest of the
  burst stays for the next call. An empty burst is a timeout during which nothing arrived.
  After the last burst the line is silent for ever: every call times out with no bytes.
  Writes to the port always succeed.
\<close>

record agent =
  config :: "config option"
  rx :: "bytes list"
  fs :: filesystem
  trace :: "event list"

definition ser_read :: "nat \<Rightarrow> bytes list \<Rightarrow> bytes \<times> bytes list" where
  "ser_read k bursts =
     (case bursts of
        [] \<Rightarrow> ([], [])
      | c # cs \<Rightarrow> (take k c, if length c \<le> k then cs else drop k c # cs))"

definition ser_readline :: "bytes list \<Rightarrow> bytes \<times> bytes list" where
  "ser_readline bursts =
     (case bursts of
        [] \<Rightarrow> ([], [])
      | c # cs \<Rightarrow>
          (case dropWhile (\<lambda>b. b \<noteq> CHR 0x0A) c of
             [] \<Rightarrow> (c, cs)
           | b # tl_c \<Rightarrow>
               (takeWhile (\<lambda>b. b \<noteq> CHR 0x0A) c @ [b], if tl_c = [] then cs else tl_c # cs)))"

definition emit :: "event \<Rightarrow> agent \<Rightarrow> agent" where
  "emit e st = st\<lparr>trace := trace st @ [e]\<rparr>"

definition ser_write :: "bytes \<Rightarrow> agent \<Rightarrow> agent" where
  "ser_write m st = emit (Tx m) st"

text \<open>
  \<^verbatim>\<open>log(msg)\<close>: the line is printed, and appended to the log file unless opening the file
  fails, which is ignored.
\<close>

definition log :: "env \<Rightarrow> string \<Rightarrow> agent \<Rightarrow> agent" where
  "log env msg st =
     (let line = ''['' @ utcnow env (length (trace st)) @ ''Z] '' @ msg;
          st1 = emit (Log msg) st
      in case fs_open False (cwd env) (fs st1) (LOG_PATH env) of
           Inl e \<Rightarrow> st1
         | Inr fs1 \<Rightarrow> st1\<lparr>fs := fs_write fs1 (resolve (cwd env) (LOG_PATH env)) (line @ nl)\<rparr>)"

definition read_line :: "env \<Rightarrow> agent \<Rightarrow> string option \<times> agent" where
  "read_line env st =
     (case ser_readline (rx st) of
        (line, rest) \<Rightarrow>
          (if line = [] then None else map_option strip (decode env line), st\<lparr>rx := rest\<rparr>))"

subsection \<open>Payload reads\<close>

text \<open>
  \<^verbatim>\<open>recv_n\<close> (lines 48-56). The loop has no exit but \<open>len(buf) >= n\<close>; a run that never
  leaves it is the value \<open>None\<close>.
\<close>

partial_function (option) recv_n_loop :: "int \<Rightarrow> bytes \<Rightarrow> agent \<Rightarrow> (bytes \<times> agent) option" where
  "recv_n_loop n buf st =
     (if int (length buf) < n then
        (case ser_read (nat (n - int (length buf))) (rx st) of
           (chunk, rest) \<Rightarrow>
             (if chunk = [] then recv_n_loop n buf (emit (Sleep (1 / 100)) (st\<lparr>rx := rest\<rparr>))
              else recv_n_loop n (buf @ chunk) (st\<lparr>rx := rest\<rparr>)))
      else Some (buf, st))"

definition recv_n :: "int \<Rightarrow> agent \<Rightarrow> (bytes \<times> agent) option" where
  "recv_n n st = recv_n_loop n [] st"

definition setdefaults :: "config \<Rightarrow> config" where
  "setdefaults cfg =
     cfg\<lparr>cfg_include := Some (case cfg_include cfg of None \<Rightarrow> [''**''] | Some v \<Rightarrow> v),
         cfg_exclude := Some (case cfg_exclude cfg of None \<Rightarrow> [] | Some v \<Rightarrow> v)\<rparr>"

definition receive_config :: "env \<Rightarrow> int \<Rightarrow> agent \<Rightarrow> (config option \<times> agent) option" where
  "receive_config env sz st =
     (case recv_n sz st of
        None \<Rightarrow> None
      | Some (raw, st1) \<Rightarrow>
          (case json_loads env raw of
             Inl e \<Rightarrow> Some (None, log env (''Failed to parse config.json: '' @ e) st1)
           | Inr cfg \<Rightarrow> Some (Some (setdefaults cfg), st1)))"

text \<open>
  \<^verbatim>\<open>read_exact\<close> (lines 71-87). The loop carries \<open>got\<close>, the bytes fed to the hash so far
  and \<open>last_progress\<close>; \<open>r\<close> is the resolved path of the open archive file.
\<close>

partial_function (option) read_exact_loop ::
  "int \<Rightarrow> string list \<Rightarrow> (int \<Rightarrow> agent \<Rightarrow> agent) option \<Rightarrow> int \<Rightarrow> bytes \<Rightarrow> int \<Rightarrow> agent
    \<Rightarrow> (int \<times> bytes \<times> agent) option"
where
  "read_exact_loop n r progress_cb got h last_progress st =
     (if got < n then
        (case ser_read (nat (min 16384 (n - got))) (rx st) of
           (chunk, rest) \<Rightarrow>
             (if chunk = [] then
                read_exact_loop n r progress_cb got h last_progress
                  (emit (Sleep (1 / 100)) (st\<lparr>rx := rest\<rparr>))
              else
                (let st1 = st\<lparr>rx := rest, fs := fs_write (fs st) r chunk\<rparr>;
                     got1 = got + int (length chunk)
                 in case progress_cb of
                      None \<Rightarrow> read_exact_loop n r progress_cb got1 (h @ chunk) last_progress st1
                    | Some cb \<Rightarrow>
                        (if got1 - last_progress \<ge> PROGRESS_INTERVAL
                         then read_exact_loop n r progress_cb got1 (h @ chunk) got1 (cb got1 st1)
                         else read_exact_loop n r progress_cb got1 (h @ chunk) last_progress st1))))
      else Some (got, h, st))"

definition read_exact ::
  "env \<Rightarrow> int \<Rightarrow> string \<Rightarrow> (int \<Rightarrow> agent \<Rightarrow> agent) option \<Rightarrow> agent
    \<Rightarrow> ((exn + int \<times> string) \<times> agent) option"
where
  "read_exact env n out_archive_path progress_cb st =
     (let st0 = emit (OpenWrite out_archive_path) st
      in case fs_open True (cwd env) (fs st0) out_archive_path of
           Inl e \<Rightarrow> Some (Inl e, st0)
         | Inr fs1 \<Rightarrow>
             (case read_exact_loop n (resolve (cwd env) out_archive_path) progress_cb 0 [] 0
                     (st0\<lparr>fs := fs1\<rparr>) of
                None \<Rightarrow> None
              | Some (got, h, st1) \<Rightarrow> Some (Inr (got, sha256 env h), st1)))"

subsection \<open>Extraction\<close>

text \<open>
  \<^verbatim>\<open>TarFile.extractall(target_dir)\<close>: the members are written in order below the target;
  the directories above a member are created as needed. The first failure ends the
  extraction with its exception, and what was written until then stays.
\<close>

definition extract_member :: "string \<Rightarrow> string \<Rightarrow> member \<Rightarrow> filesystem \<Rightarrow> exn option \<times> filesystem" where
  "extract_member cw target m fs0 =
     (case m of
        MDir name \<Rightarrow>
          (case fs_makedirs cw fs0 (path_join target name) of
             Inl e \<Rightarrow> (Some e, fs0)
           | Inr fs1 \<Rightarrow> (None, fs1))
      | MFile name data \<Rightarrow>
          (let dest = path_join target name
           in case fs_makedirs cw fs0 (dirname dest) of
                Inl e \<Rightarrow> (Some e, fs0)
              | Inr fs1 \<Rightarrow>
                  (case fs_open True cw fs1 dest of
                     Inl e \<Rightarrow> (Some e, fs1)
                   | Inr fs2 \<Rightarrow> (None, fs_write fs2 (resolve cw dest) data))))"

fun extractall :: "string \<Rightarrow> string \<Rightarrow> member list \<Rightarrow> filesystem \<Rightarrow> exn option \<times> filesystem" where
  "extractall cw target [] fs0 = (None, fs0)"
| "extractall cw target (m # ms) fs0 =
     (case extract_member cw target m fs0 of
        (Some e, fs1) \<Rightarrow> (Some e, fs1)
      | (None, fs1) \<Rightarrow> extractall cw target ms fs1)"

text \<open>
  \<^verbatim>\<open>tarfile.open(archive_path, "r:gz")\<close> followed by \<^verbatim>\<open>extractall\<close>: the archive file is
  read from the filesystem as it is at that moment.
\<close>

definition untar_to :: "env \<Rightarrow> string \<Rightarrow> string \<Rightarrow> filesystem \<Rightarrow> exn option \<times> filesystem" where
  "untar_to env archive_path target fs0 =
     (if archive_path = [] then (Some (FileNotFoundError archive_path), fs0)
      else case fs0 (resolve (cwd env) archive_path) of
             None \<Rightarrow> (Some (FileNotFoundError archive_path), fs0)
           | Some Dir \<Rightarrow> (Some (IsADirectoryError archive_path), fs0)
           | Some (File content) \<Rightarrow>
               (case untar env content of
                  Inl e \<Rightarrow> (Some (ReadError e), fs0)
                | Inr members \<Rightarrow> extractall (cwd env) target members fs0))"

text \<open>\<^verbatim>\<open>extract_archive_to\<close> (lines 89-103). Every exception ends in \<open>(False, str(e))\<close>.\<close>

definition extract_archive_to :: "env \<Rightarrow> string \<Rightarrow> string \<Rightarrow> agent \<Rightarrow> (bool \<times> string option) \<times> agent" where
  "extract_archive_to env archive_path target_dir st =
     (if fs_exists (cwd env) (fs st) target_dir
         \<and> abspath (cwd env) target_dir \<in> set [''/'', []]
      then ((False, Some ''DANGEROUS_PATH''),
            log env (''Refusing to remove dangerous path: '' @ target_dir) st)
      else
        (case (if fs_exists (cwd env) (fs st) target_dir
               then (case fs_rmtree (rmtree_fault env) (rmtree_root env) (cwd env) (fs st) target_dir of
                       (x, fs1) \<Rightarrow> (x, (emit (Rmtree target_dir) st)\<lparr>fs := fs1\<rparr>))
               else (None, st)) of
           (Some e, st1) \<Rightarrow> ((False, Some (exn_str e)), st1)
         | (None, st1) \<Rightarrow>
             (case fs_makedirs (cwd env) (fs st1) target_dir of
                Inl e \<Rightarrow> ((False, Some (exn_str e)), emit (Makedirs target_dir) st1)
              | Inr fs2 \<Rightarrow>
                  (case untar_to env archive_path target_dir fs2 of
                     (Some e, fs3) \<Rightarrow>
                       ((False, Some (exn_str e)),
                        (emit (Untar archive_path target_dir) (emit (Makedirs target_dir) st1))\<lparr>fs := fs3\<rparr>)
                   | (None, fs3) \<Rightarrow>
                       ((True, None),
                        (emit (Untar archive_path target_dir) (emit (Makedirs target_dir) st1))\<lparr>fs := fs3\<rparr>)))))"

subsection \<open>Running the entry point\<close>

text \<open>The loop \<^verbatim>\<open>for line in proc.stdout\<close> (lines 138-146).\<close>

fun stream_lines :: "env \<Rightarrow> string list \<Rightarrow> agent \<Rightarrow> agent" where
  "stream_lines env [] st = st"
| "stream_lines env (line # others) st =
     (if line = [] then stream_lines env others st
      else stream_lines env others
             (ser_write (rstrip_nl line @ nl) (log env (''APP: '' @ rstrip_nl line) st)))"

text \<open>\<^verbatim>\<open>run_with_config\<close> (lines 105-158). \<open>None\<close>: the subprocess never ends.\<close>

definition run_with_config :: "env \<Rightarrow> config \<Rightarrow> agent \<Rightarrow> agent option" where
  "run_with_config env cfg st =
     (let deploy_dir = (case cfg_directory cfg of None \<Rightarrow> DEFAULT_APP_DIR env | Some d \<Rightarrow> d);
          main_rel = (case cfg_main cfg of None \<Rightarrow> ''main.py'' | Some m \<Rightarrow> m);
          args = (case cfg_args cfg of None \<Rightarrow> [] | Some a \<Rightarrow> a);
          main_path = path_join deploy_dir main_rel
      in if \<not> fs_exists (cwd env) (fs st) main_path then
           Some (ser_write (''ERR_RUN main not found: '' @ main_path @ nl)
                   (log env (''main not found: '' @ main_path) st))
         else
           (let cmd = [''python3'', ''-u'', main_path] @ args;
                st1 = emit (Popen cmd) (log env (''Starting process: '' @ join_with '' '' cmd) st)
            in case popen env cmd of
                 Inl e \<Rightarrow>
                   Some (ser_write (''ERR_RUN '' @ exn_str e @ nl)
                           (log env (''Failed to start process: '' @ exn_str e) st1))
               | Inr proc \<Rightarrow>
                   (let st2 = stream_lines env (out_lines proc) (ser_write (''RUNNING'' @ nl) st1)
                    in case ending proc of
                         Hangs \<Rightarrow> None
                       | StreamError e \<Rightarrow>
                           Some (ser_write (''ERR_STREAM '' @ exn_str e @ nl)
                                   (log env (''Exception while streaming process output: '' @ exn_str e) st2))
                       | Exited code \<Rightarrow>
                           Some (ser_write (''EXIT '' @ py_str code @ nl)
                                   (log env (''Process exited with code '' @ py_str code) st2)))))"

subsection \<open>The command loop\<close>

text \<open>
  The callback of \<^verbatim>\<open>main\<close> (lines 215-219), and the end of the UPLOAD branch after
  \<^verbatim>\<open>read_exact\<close> has returned (lines 222-243).
\<close>

definition progress_cb :: "int \<Rightarrow> agent \<Rightarrow> agent" where
  "progress_cb g st = ser_write (''PROGRESS '' @ py_str g @ nl) st"

definition do_remove :: "env \<Rightarrow> string \<Rightarrow> agent \<Rightarrow> agent" where
  "do_remove env p st =
     (let st1 = emit (Remove p) st
      in case fs_remove (cwd env) (fs st1) p of Inl e \<Rightarrow> st1 | Inr fs1 \<Rightarrow> st1\<lparr>fs := fs1\<rparr>)"

definition upload_finish :: "env \<Rightarrow> string \<Rightarrow> string \<Rightarrow> int \<Rightarrow> string \<Rightarrow> agent \<Rightarrow> agent" where
  "upload_finish env deploy_dir sha256_expected got sha256_actual st =
     (let st1 = log env (''Received '' @ py_str got @ '' bytes, computed sha256='' @ sha256_actual) st
      in if sha256_actual \<noteq> sha256_expected then
           do_remove env (ARCHIVE_PATH env)
             (log env ''Checksum mismatch. Waiting for possible retry.''
                (ser_write (''ERR_CHECKSUM '' @ sha256_actual @ nl) st1))
         else
           (case extract_archive_to env (ARCHIVE_PATH env) deploy_dir (ser_write (''DONE'' @ nl) st1) of
              ((ok, err), st2) \<Rightarrow>
                (if ok then log env (''Extraction succeeded into '' @ deploy_dir @ ''.'') st2
                 else log env (''Extraction failed: '' @ (case err of None \<Rightarrow> ''None'' | Some e \<Rightarrow> e)) st2)))"

text \<open>
  The body of the \<^verbatim>\<open>try\<close> in \<^verbatim>\<open>main\<close> for a header that \<^verbatim>\<open>read_line\<close> returned (lines
  172-255). The result holds the exception that leaves the body, if any; \<open>None\<close> as the
  whole result is a body that never ends.
\<close>

definition handle_header :: "env \<Rightarrow> string \<Rightarrow> agent \<Rightarrow> (exn option \<times> agent) option" where
  "handle_header env header st =
     (if startswith header ''CONFIG'' then
        (let parts = split_ws 1 header
         in if length parts \<noteq> 2 then
              Some (None, log env (''Bad CONFIG header: '' @ header)
                            (ser_write (''ERR_CONFIG_HEADER'' @ nl) st))
            else
              (case py_int (parts ! 1) of
                 None \<Rightarrow> Some (Some (ValueError (parts ! 1)), st)
               | Some sz \<Rightarrow>
                   (case receive_config env sz st of
                      None \<Rightarrow> None
                    | Some (None, st1) \<Rightarrow>
                        Some (None, log env ''Failed to parse config; ignoring.''
                                      (ser_write (''ERR_CONFIG_PARSE'' @ nl) st1))
                    | Some (Some cfg, st1) \<Rightarrow>
                        Some (None, log env (''Config received: '' @ repr_config env cfg)
                                      (ser_write (''OK_CONFIG'' @ nl) (st1\<lparr>config := Some cfg\<rparr>))))))
      else if startswith header ''UPLOAD'' then
        (case config st of
           None \<Rightarrow>
             Some (None, log env ''UPLOAD received but no config present.''
                           (ser_write (''ERR_NO_CONFIG'' @ nl) st))
         | Some cfg \<Rightarrow>
             (let parts = split_ws 3 header
              in if length parts < 4 then
                   Some (None, log env (''Bad UPLOAD header: '' @ header)
                                 (ser_write (''ERR_HEADER'' @ nl) st))
                 else
                   (let size_s = parts ! 1; sha256_expected = parts ! 2; name = parts ! 3
                    in case py_int size_s of
                         None \<Rightarrow>
                           Some (None, log env (''Bad size in header: '' @ size_s)
                                         (ser_write (''ERR_HEADER'' @ nl) st))
                       | Some sz \<Rightarrow>
                           (let deploy_dir =
                                  (case cfg_directory cfg of None \<Rightarrow> DEFAULT_APP_DIR env | Some d \<Rightarrow> d);
                                parent = (if dirname deploy_dir \<noteq> [] then dirname deploy_dir else deploy_dir);
                                st1 = emit (Makedirs parent) st
                            in case fs_makedirs (cwd env) (fs st1) parent of
                                 Inl e \<Rightarrow> Some (Some e, st1)
                               | Inr fs1 \<Rightarrow>
                                   (let st2 =
                                          ser_write (''OK'' @ nl)
                                            (log env (''UPLOAD requested: name='' @ name @ '' size='' @ py_str sz
                                                       @ '' sha256='' @ sha256_expected @ '' deploy_to='' @ deploy_dir)
                                               (st1\<lparr>fs := fs1\<rparr>))
                                    in case read_exact env sz (ARCHIVE_PATH env) (Some progress_cb) st2 of
                                         None \<Rightarrow> None
                                       | Some (Inl e, st3) \<Rightarrow> Some (Some e, st3)
                                       | Some (Inr (got, sha256_actual), st3) \<Rightarrow>
                                           Some (None, upload_finish env deploy_dir sha256_expected got sha256_actual st3))))))
      else if header = ''RUN'' then
        (case config st of
           None \<Rightarrow>
             Some (None, log env ''RUN received but no config present.''
                           (ser_write (''ERR_NO_CONFIG'' @ nl) st))
         | Some cfg \<Rightarrow>
             (case run_with_config env cfg (log env ''RUN command received; starting application.'' st) of
                None \<Rightarrow> None
              | Some st1 \<Rightarrow> Some (None, st1)))
      else Some (None, log env (''Ignoring unknown command: '' @ header) st))"

text \<open>
  One pass of \<^verbatim>\<open>while True\<close> in \<^verbatim>\<open>main\<close> (lines 167-259): the header is read, an empty
  or undecodable one ends the pass, and an exception that leaves the body is logged and
  followed by a sleep of one second. Nothing ends the loop: a pass that returns is
  followed by the next pass.
\<close>

definition main_pass :: "env \<Rightarrow> agent \<Rightarrow> agent option" where
  "main_pass env st =
     (case read_line env st of
        (None, st1) \<Rightarrow> Some st1
      | (Some header, st1) \<Rightarrow>
          (if header = [] then Some st1
           else case handle_header env header st1 of
                  None \<Rightarrow> None
                | Some (None, st2) \<Rightarrow> Some st2
                | Some (Some e, st2) \<Rightarrow>
                    Some (emit (Sleep 1) (log env (''Exception: '' @ exn_str e) st2))))"

fun main_loop :: "nat \<Rightarrow> env \<Rightarrow> agent \<Rightarrow> agent option" where
  "main_loop 0 env st = Some st"
| "main_loop (Suc k) env st =
     (case main_pass env st of None \<Rightarrow> None | Some st1 \<Rightarrow> main_loop k env st1)"

text \<open>
  The start of \<^verbatim>\<open>main\<close> (lines 161-165): the application directory is created, two lines
  are logged, and no configuration is held.
\<close>

definition main_start :: "env \<Rightarrow> bytes list \<Rightarrow> filesystem \<Rightarrow> exn + agent" where
  "main_start env bursts fs0 =
     (case fs_makedirs (cwd env) fs0 (DEFAULT_APP_DIR env) of
        Inl e \<Rightarrow> Inl e
      | Inr fs1 \<Rightarrow>
          Inr (log env ''Ready.''
                 (log env ''Starting receiver on /dev/ttyGS0 @ 115200''
                    \<lparr>config = None, rx = bursts, fs = fs1, trace = [Makedirs (DEFAULT_APP_DIR env)]\<rparr>)))"

section \<open>Controller: the whole-attempt retry loop (uploader.py, send_with_retries)\<close>

text \<open>
  The loop of \<^verbatim>\<open>send_with_retries\<close> (uploader.py, lines 227-241):
  \<^verbatim>\<open>
    attempt = 0
    while attempt < max_retries:
        attempt += 1
        ok, reason = send_once(str(folder), str(archive_path), config)
        if ok:
            return True
        else:
            delay = RETRY_BASE_DELAY * (2 ** (attempt - 1))
            time.sleep(delay)
    return False
  \<close>
  The two effects of the loop that matter to the protocol are recorded in a trace: the call
  of \<^verbatim>\<open>send_once\<close> for attempt number \<open>k\<close>, and the call of \<^verbatim>\<open>time.sleep\<close> with its
  delay in seconds. The log lines of the loop do not influence its control flow and are not
  recorded. The result of \<^verbatim>\<open>send_once\<close> at each attempt is given by an oracle; the value
  \<open>None\<close> stands for a call that never returns, in which case the loop does not return either.
  The delay is the float \<^verbatim>\<open>1.0 * 2 ** (attempt - 1)\<close>, a power of two, which floats
  represent exactly; it is modelled as a rational number.
\<close>

definition MAX_RETRIES :: int where
  "MAX_RETRIES = 5"

definition RETRY_BASE_DELAY :: rat where
  "RETRY_BASE_DELAY = 1"

function retry_loop ::
  "(int \<Rightarrow> bool option) \<Rightarrow> int \<Rightarrow> int \<Rightarrow> event list \<Rightarrow> event list \<times> bool option"
where
  "retry_loop send_once max_retries attempt tr =
     (if attempt < max_retries then
        (let attempt' = attempt + 1;
             tr1 = tr @ [Attempt attempt']
         in case send_once attempt' of
              None \<Rightarrow> (tr1, None)
            | Some True \<Rightarrow> (tr1, Some True)
            | Some False \<Rightarrow>
                (let delay = RETRY_BASE_DELAY * 2 ^ nat (attempt' - 1)
                 in retry_loop send_once max_retries attempt' (tr1 @ [Sleep delay])))
      else (tr, Some False))"
  by pat_completeness auto
termination
  by (relation "measure (\<lambda>(s, m, a, t). nat (m - a))") auto

definition send_with_retries :: "(int \<Rightarrow> bool option) \<Rightarrow> int \<Rightarrow> event list \<times> bool option" where
  "send_with_retries send_once max_retries = retry_loop send_once max_retries 0 []"

text \<open>
  For stating what the loop does: the attempts of a trace, and the trace of the failed
  attempts \<open>ks\<close>, each followed by its sleep.
\<close>

fun is_attempt :: "event \<Rightarrow> bool" where
  "is_attempt (Attempt k) = True"
| "is_attempt other = False"

definition backoff_trace :: "int list \<Rightarrow> event list" where
  "backoff_trace ks = concat (map (\<lambda>k. [Attempt k, Sleep (RETRY_BASE_DELAY * 2 ^ nat (k - 1))]) ks)"

section \<open>Controller: the archive builder (uploader.py, make_archive)\<close>

text \<open>
  \<^verbatim>\<open>should_exclude\<close> and \<^verbatim>\<open>should_include\<close> (lines 53-63): the first pattern that matches
  decides. \<^verbatim>\<open>fnmatch.fnmatch\<close> is a parameter, called with the name first and the pattern
  second.
\<close>

fun should_exclude :: "(string \<Rightarrow> string \<Rightarrow> bool) \<Rightarrow> string \<Rightarrow> string list \<Rightarrow> bool" where
  "should_exclude fnmatch rel_posix [] = False"
| "should_exclude fnmatch rel_posix (pat # pats) =
     (if fnmatch rel_posix pat then True else should_exclude fnmatch rel_posix pats)"

fun should_include :: "(string \<Rightarrow> string \<Rightarrow> bool) \<Rightarrow> string \<Rightarrow> string list \<Rightarrow> bool" where
  "should_include fnmatch rel_posix [] = False"
| "should_include fnmatch rel_posix (pat # pats) =
     (if fnmatch rel_posix pat then True else should_include fnmatch rel_posix pats)"

text \<open>
  The source folder is the list of its regular files, each with its path relative to the
  folder in POSIX form and its content, in the order in which \<^verbatim>\<open>os.walk\<close> finds them. The
  archive is the list of its members, each with its name and content. The path of the
  archive is \<open>Some\<close> relative path when the archive lies in the folder (as it does in
  \<^verbatim>\<open>send_with_retries\<close>, where it is \<^verbatim>\<open>folder / "__upload__.tar.gz"\<close>), \<open>None\<close> otherwise.
  Reading a file of the folder is taken to succeed.

  \<^verbatim>\<open>tf.add\<close> skips the file that is the archive being written
  (\<^verbatim>\<open>os.path.abspath(name) == self.name\<close> in \<^verbatim>\<open>tarfile.TarFile.add\<close>).
\<close>

type_synonym tree = "(string \<times> bytes) list"

definition tf_add :: "string option \<Rightarrow> string \<Rightarrow> bytes \<Rightarrow> tree \<Rightarrow> tree" where
  "tf_add out_rel rel content tf = (if out_rel = Some rel then tf else tf @ [(rel, content)])"

text \<open>The loop over the files of \<^verbatim>\<open>os.walk(folder)\<close> (lines 72-85).\<close>

fun add_files ::
  "(string \<Rightarrow> string \<Rightarrow> bool) \<Rightarrow> string list \<Rightarrow> string list \<Rightarrow> string option \<Rightarrow> tree \<Rightarrow> tree \<Rightarrow> tree"
where
  "add_files fnmatch include_patterns exclude_patterns out_rel [] tf = tf"
| "add_files fnmatch include_patterns exclude_patterns out_rel ((rel, content) # files) tf =
     (if rel = ''config.json''
        then add_files fnmatch include_patterns exclude_patterns out_rel files
               (tf_add out_rel rel content tf)
      else if \<not> should_include fnmatch rel include_patterns
        then add_files fnmatch include_patterns exclude_patterns out_rel files tf
      else if should_exclude fnmatch rel exclude_patterns
        then add_files fnmatch include_patterns exclude_patterns out_rel files tf
      else add_files fnmatch include_patterns exclude_patterns out_rel files
             (tf_add out_rel rel content tf))"

text \<open>
  \<^verbatim>\<open>make_archive\<close> (lines 65-86). An archive left at \<^verbatim>\<open>out_path\<close> is unlinked, and
  \<^verbatim>\<open>tarfile.open(out_path, "w:gz")\<close> creates the file anew before the walk starts, so the
  walk finds the archive being written among the files of the folder (its place in the
  walk has no influence, since \<^verbatim>\<open>tf.add\<close> skips it). The result is the list of the members
  of the archive.
\<close>

definition make_archive ::
  "(string \<Rightarrow> string \<Rightarrow> bool) \<Rightarrow> tree \<Rightarrow> string option \<Rightarrow> config \<Rightarrow> tree"
where
  "make_archive fnmatch folder out_rel c =
     (let unlinked = filter (\<lambda>(rel, content). out_rel \<noteq> Some rel) folder;
          include_patterns = (case cfg_include c of None \<Rightarrow> [''**''] | Some pats \<Rightarrow> pats);
          exclude_patterns = (case cfg_exclude c of None \<Rightarrow> [] | Some pats \<Rightarrow> pats);
          walk = (case out_rel of None \<Rightarrow> unlinked | Some out \<Rightarrow> unlinked @ [(out, [])])
      in add_files fnmatch include_patterns exclude_patterns out_rel walk [])"

section \<open>Controller: one attempt (uploader.py, send_once)\<close>

text \<open>
  The serial port of the controller is opened with \<^verbatim>\<open>timeout=2\<close>. The state of the
  controller during one attempt: what the coming calls of \<^verbatim>\<open>ser.readline()\<close> return, each
  with the time in seconds that the call takes (an empty line is a call that timed out);
  the clock that \<^verbatim>\<open>time.time()\<close> reads; and the writes to the port so far. After the last
  scripted line the agent is silent for ever: every call of \<^verbatim>\<open>readline\<close> returns the
  empty line after 2 seconds. Time passes in \<^verbatim>\<open>readline\<close> and in \<^verbatim>\<open>time.sleep\<close> only.
  Writes to the port succeed; the lines written to the local log are not recorded.
\<close>

record ctl =
  pending :: "(bytes \<times> rat) list"
  clock :: rat
  sent :: "bytes list"

definition ctl_readline :: "ctl \<Rightarrow> bytes \<times> ctl" where
  "ctl_readline st =
     (case pending st of
        [] \<Rightarrow> ([], st\<lparr>clock := clock st + 2\<rparr>)
      | (line, dt) # rest \<Rightarrow> (line, st\<lparr>pending := rest, clock := clock st + dt\<rparr>))"

definition ctl_write :: "bytes \<Rightarrow> ctl \<Rightarrow> ctl" where
  "ctl_write data st = st\<lparr>sent := sent st @ [data]\<rparr>"

definition ctl_sleep :: "rat \<Rightarrow> ctl \<Rightarrow> ctl" where
  "ctl_sleep d st = st\<lparr>clock := clock st + d\<rparr>"

text \<open>
  \<^verbatim>\<open>
    try:
        resp = line.decode().strip()
    except Exception:
        resp = ""
  \<close>
  with \<^verbatim>\<open>bytes.decode\<close> as a parameter.
\<close>

definition response :: "(bytes \<Rightarrow> string option) \<Rightarrow> bytes \<Rightarrow> string" where
  "response dec line = (case dec line of None \<Rightarrow> [] | Some s \<Rightarrow> strip s)"

text \<open>
  The wait for \<^verbatim>\<open>OK_CONFIG\<close> (lines 116-132) and the wait for \<^verbatim>\<open>OK\<close> (lines 140-156) are
  the same loop, with another expected token and another reason for the timeout; \<open>t0\<close> is
  the reading of the clock before the loop:
  \<^verbatim>\<open>
    while True:
        line = ser.readline()
        if line:
            resp = ...
            if resp == "OK_CONFIG":
                break
            if resp.startswith("ERR"):
                return False, resp
        if time.time() - t0 > 10:
            return False, "TIMEOUT_OK_CONFIG"
  \<close>
  \<open>Acked\<close> is the \<^verbatim>\<open>break\<close>, \<open>Failed reason\<close> is \<^verbatim>\<open>return False, reason\<close>.
\<close>

datatype ack = Acked | Failed string

function wait_ack ::
  "(bytes \<Rightarrow> string option) \<Rightarrow> string \<Rightarrow> string \<Rightarrow> rat \<Rightarrow> ctl \<Rightarrow> ack \<times> ctl"
where
  "wait_ack dec expected timeout_reason t0 st =
     (case ctl_readline st of
        (line, st1) \<Rightarrow>
          (if line \<noteq> [] \<and> response dec line = expected then (Acked, st1)
           else if line \<noteq> [] \<and> startswith (response dec line) ''ERR''
             then (Failed (response dec line), st1)
           else if clock st1 - t0 > 10 then (Failed timeout_reason, st1)
           else wait_ack dec expected timeout_reason t0 st1))"
  by pat_completeness auto
termination
proof (relation "measures [\<lambda>(dec, expected, timeout_reason, t0, st). length (pending st),
                           \<lambda>(dec, expected, timeout_reason, t0, st). nat \<lceil>t0 + 11 - clock st\<rceil>]",
       goal_cases)
  case 1
  show ?case by simp
next
  case (2 dec expected timeout_reason t0 st line st1)
  show ?case
  proof (cases "pending st")
    case Nil
    then have s: "st1 = st\<lparr>clock := clock st + 2\<rparr>" using 2(1) by (simp add: ctl_readline_def)
    have "clock st + 2 - t0 \<le> 10" using 2(4) s by simp
    then have "\<lceil>t0 + 11 - (clock st + 2)\<rceil> \<ge> 1" "\<lceil>t0 + 11 - (clock st + 2)\<rceil> < \<lceil>t0 + 11 - clock st\<rceil>"
      by linarith+
    then show ?thesis using Nil s by simp
  next
    case (Cons a rest)
    then show ?thesis using 2(1) by (cases a) (auto simp: ctl_readline_def)
  qed
qed

declare wait_ack.simps [simp del]

text \<open>
  The loop that shows the output of the started program for ten seconds after \<^verbatim>\<open>DONE\<close>
  (lines 189-198); \<open>t_start\<close> is the reading of the clock before the loop.
\<close>

function drain_run_logs :: "rat \<Rightarrow> ctl \<Rightarrow> ctl" where
  "drain_run_logs t_start st =
     (if clock st - t_start < 10 then
        (case ctl_readline st of
           (line, st1) \<Rightarrow>
             (if line \<noteq> [] then drain_run_logs t_start st1
              else drain_run_logs t_start (ctl_sleep (1 / 20) st1)))
      else st)"
  by pat_completeness auto
termination
proof (relation "measures [\<lambda>(t_start, st). length (pending st),
                           \<lambda>(t_start, st). nat \<lceil>t_start + 10 - clock st\<rceil>]",
       goal_cases)
  case 1
  show ?case by simp
next
  case (2 t_start st line st1)
  then show ?case by (cases "pending st"; cases "hd (pending st)") (auto simp: ctl_readline_def)
next
  case (3 t_start st line st1)
  show ?case
  proof (cases "pending st")
    case Nil
    then have s: "st1 = st\<lparr>clock := clock st + 2\<rparr>" using 3(2) by (simp add: ctl_readline_def)
    have "\<lceil>t_start + 10 - clock st\<rceil> \<ge> 1"
      "\<lceil>t_start + 10 - (clock st + 2 + 1 / 20)\<rceil> < \<lceil>t_start + 10 - clock st\<rceil>"
      using 3(1) by linarith+
    then show ?thesis using Nil s by (simp add: ctl_sleep_def)
  next
    case (Cons a rest)
    then show ?thesis using 3(2) by (cases a) (auto simp: ctl_readline_def ctl_sleep_def)
  qed
qed

declare drain_run_logs.simps [simp del]

text \<open>
  The wait for \<^verbatim>\<open>DONE\<close> or \<^verbatim>\<open>ERR_CHECKSUM\<close> after the bytes of the archive (lines 172-209):
  \<^verbatim>\<open>
    while True:
        line = ser.readline()
        if not line:
            time.sleep(0.05)
            continue
        resp = ...
        if resp == "DONE":
            ser.write(b"RUN\n")
            ...
            return True, "DONE"
        if resp.startswith("ERR_CHECKSUM"):
            return False, resp
  \<close>
  The loop reads no clock. A wait that never ends is the value \<open>None\<close>.
\<close>

partial_function (option) wait_done ::
  "(bytes \<Rightarrow> string option) \<Rightarrow> ctl \<Rightarrow> ((bool \<times> string) \<times> ctl) option"
where
  "wait_done dec st =
     (case ctl_readline st of
        (line, st1) \<Rightarrow>
          (if line = [] then wait_done dec (ctl_sleep (1 / 20) st1)
           else if response dec line = ''DONE''
             then (let st2 = ctl_write (''RUN'' @ nl) st1
                   in Some ((True, ''DONE''), drain_run_logs (clock st2) st2))
           else if startswith (response dec line) ''ERR_CHECKSUM''
             then Some ((False, response dec line), st1)
           else wait_done dec st1))"

text \<open>The archive is written to the port in chunks of 16384 bytes (lines 161-169).\<close>

function send_chunks :: "bytes \<Rightarrow> ctl \<Rightarrow> ctl" where
  "send_chunks payload st =
     (if take 16384 payload = [] then st
      else send_chunks (drop 16384 payload) (ctl_write (take 16384 payload) st))"
  by pat_completeness auto
termination
  by (relation "measure (\<lambda>(payload, st). length payload)") auto

declare send_chunks.simps [simp del]

text \<open>
  \<^verbatim>\<open>send_once\<close> (lines 98-211), from the opened port on. The text of the config
  (\<^verbatim>\<open>json.dumps(config).encode()\<close>), the size, the digest and the name of the archive and
  its bytes are parameters.
\<close>

definition send_once ::
  "(bytes \<Rightarrow> string option) \<Rightarrow> bytes \<Rightarrow> int \<Rightarrow> string \<Rightarrow> string \<Rightarrow> bytes \<Rightarrow> ctl
    \<Rightarrow> ((bool \<times> string) \<times> ctl) option"
where
  "send_once dec cfg_bytes sz sha name payload st =
     (let st1 = ctl_write cfg_bytes
                  (ctl_write (''CONFIG '' @ py_str (int (length cfg_bytes)) @ nl) st)
      in case wait_ack dec ''OK_CONFIG'' ''TIMEOUT_OK_CONFIG'' (clock st1) st1 of
           (Failed reason, st2) \<Rightarrow> Some ((False, reason), st2)
         | (Acked, st2) \<Rightarrow>
             (let st3 = ctl_write (''UPLOAD '' @ py_str sz @ '' '' @ sha @ '' '' @ name @ nl) st2
              in case wait_ack dec ''OK'' ''TIMEOUT_OK'' (clock st3) st3 of
                   (Failed reason, st4) \<Rightarrow> Some ((False, reason), st4)
                 | (Acked, st4) \<Rightarrow> wait_done dec (send_chunks payload st4)))"

section \<open>Notions for stating the claims\<close>

text \<open>
  Kinds of events, and the spacing of a list of progress counts: each count is at least
  \<^verbatim>\<open>PROGRESS_INTERVAL\<close> above the one before it, the first one above \<open>prev\<close>.
\<close>

fun is_tx :: "event \<Rightarrow> bool" where
  "is_tx (Tx m) = True"
| "is_tx other = False"

fun is_sleep :: "event \<Rightarrow> bool" where
  "is_sleep (Sleep d) = True"
| "is_sleep other = False"

fun spaced :: "int \<Rightarrow> int list \<Rightarrow> bool" where
  "spaced prev [] = True"
| "spaced prev (g # gs) = (g - prev \<ge> PROGRESS_INTERVAL \<and> spaced g gs)"

text \<open>A file name that is a single path component.\<close>

definition simple_name :: "string \<Rightarrow> bool" where
  "simple_name name = (name \<noteq> [] \<and> CHR ''/'' \<notin> set name \<and> name \<noteq> ''.'' \<and> name \<noteq> ''..'')"

text \<open>
  A sample environment and filesystem for the concrete runs below: the home directory
  \<^verbatim>\<open>/home/pi\<close> with the application directory in it.
\<close>

definition demo_env :: env where
  "demo_env =
     \<lparr>DEFAULT_APP_DIR = ''/home/pi/app'', cwd = ''/home/pi'',
      sha256 = (\<lambda>b. ''sha256:'' @ b),
      json_loads = (\<lambda>b. Inl ''Expecting value''),
      decode = Some,
      untar = (\<lambda>b. Inl ''not a gzip file''),
      popen = (\<lambda>cmd. Inl (FileNotFoundError ''python3'')),
      utcnow = (\<lambda>k. ''2024-01-01T00:00:00''),
      repr_config = (\<lambda>c. ''{}''),
      rmtree_fault = (\<lambda>r. None),
      rmtree_root = (OSError ''[Errno 16] Device or resource busy'', (\<lambda>q. False))\<rparr>"

definition demo_fs :: filesystem where
  "demo_fs = map_of [([], Dir), ([''home''], Dir), ([''home'', ''pi''], Dir),
                     ([''home'', ''pi'', ''app''], Dir)]"

definition demo_agent :: "bytes list \<Rightarrow> agent" where
  "demo_agent bursts = \<lparr>config = None, rx = bursts, fs = demo_fs, trace = []\<rparr>"

definition demo_block :: bytes where
  "demo_block = replicate 16384 (CHR ''x'')"

text \<open>The calls by which \<^verbatim>\<open>extract_archive_to\<close> clears the target and unpacks the archive.\<close>

fun is_extraction :: "event \<Rightarrow> bool" where
  "is_extraction (Rmtree p) = True"
| "is_extraction (Untar a t) = True"
| "is_extraction other = False"

definition demo_config :: config where
  "demo_config =
     \<lparr>cfg_directory = Some ''/deploy'', cfg_main = Some ''app.py'', cfg_args = Some [''--x''],
      cfg_include = Some [''**''], cfg_exclude = Some [''*.log'']\<rparr>"

text \<open>The sample filesystem after a deployment to \<^verbatim>\<open>/deploy\<close>, and two sample subprocesses.\<close>

definition demo_fs_deployed :: filesystem where
  "demo_fs_deployed = map_of [([], Dir), ([''home''], Dir), ([''home'', ''pi''], Dir),
                     ([''home'', ''pi'', ''app''], Dir), ([''deploy''], Dir),
                     ([''deploy'', ''app.py''], File ''print(1)''),
                     ([''deploy'', ''old.txt''], File ''old'')]"

definition demo_proc_exit3 :: process where
  "demo_proc_exit3 = \<lparr>out_lines = [''hello'' @ nl, ''bye''], ending = Exited 3\<rparr>"

definition demo_proc_broken :: process where
  "demo_proc_broken = \<lparr>out_lines = [''hello'' @ nl], ending = StreamError (OSError ''codec cannot decode byte'')\<rparr>"

definition demo_deployed :: agent where
  "demo_deployed = \<lparr>config = Some demo_config, rx = [], fs = demo_fs_deployed, trace = []\<rparr>"

text \<open>
  The paths that unpacking a member below the target can create or write: the member's
  own path and the directories above it. The members of the archive stored at a path.
\<close>

fun member_paths :: "string \<Rightarrow> string \<Rightarrow> member \<Rightarrow> string list set" where
  "member_paths cw target (MDir name) = {q. prefix q (resolve cw (path_join target name))}"
| "member_paths cw target (MFile name data) =
     {q. prefix q (resolve cw (dirname (path_join target name)))}
       \<union> {resolve cw (path_join target name)}"

definition archive_members :: "env \<Rightarrow> filesystem \<Rightarrow> string \<Rightarrow> member list" where
  "archive_members env fs0 archive_path =
     (case fs0 (resolve (cwd env) archive_path) of
        Some (File content) \<Rightarrow> (case untar env content of Inl e \<Rightarrow> [] | Inr members \<Rightarrow> members)
      | other \<Rightarrow> [])"

definition below_from :: "string list \<Rightarrow> string list set \<Rightarrow> filesystem \<Rightarrow> bool" where
  "below_from r paths fs0 = (\<forall>q. strict_prefix r q \<and> fs0 q \<noteq> None \<longrightarrow> q \<in> paths)"


text \<open>
  A deployment with a staged archive: the archive holds \<^verbatim>\<open>app.py\<close> and \<^verbatim>\<open>lib/util.py\<close>,
  the deploy directory holds \<^verbatim>\<open>app.py\<close> and \<^verbatim>\<open>old.txt\<close>.
\<close>

definition demo_env_tar :: env where
  "demo_env_tar =
     demo_env\<lparr>untar := (\<lambda>b. Inr [MFile ''app.py'' ''print(2)'', MDir ''lib'',
                                  MFile ''lib/util.py'' ''x = 1''])\<rparr>"

definition demo_fs_staged :: filesystem where
  "demo_fs_staged = map_of [([], Dir), ([''home''], Dir), ([''home'', ''pi''], Dir),
                     ([''home'', ''pi'', ''app''], Dir),
                     ([''home'', ''pi'', ''app'', ''__upload__.tar.gz''], File ''archive''),
                     ([''deploy''], Dir),
                     ([''deploy'', ''app.py''], File ''print(1)''),
                     ([''deploy'', ''old.txt''], File ''old'')]"

definition demo_staged :: agent where
  "demo_staged = \<lparr>config = Some demo_config, rx = [], fs = demo_fs_staged, trace = []\<rparr>"

text \<open>
  A sample matcher for the runs of the archive builder: \<^verbatim>\<open>fnmatch\<close> on the patterns made of
  \<^verbatim>\<open>*\<close> (any run of characters, slashes too), \<^verbatim>\<open>?\<close> (any one character) and characters
  that stand for themselves. And two sample folders, the second one with the archive of
  an earlier upload in it.
\<close>

fun glob_match :: "string \<Rightarrow> string \<Rightarrow> bool" where
  "glob_match [] [] = True"
| "glob_match (c # name) [] = False"
| "glob_match [] (p # pat) = (p = CHR ''*'' \<and> glob_match [] pat)"
| "glob_match (c # name) (p # pat) =
     (if p = CHR ''*'' then glob_match (c # name) pat \<or> glob_match name (p # pat)
      else (p = CHR ''?'' \<or> p = c) \<and> glob_match name pat)"

definition demo_folder :: tree where
  "demo_folder = [(''app.py'', ''print(2)''), (''data.log'', ''log''), (''config.json'', ''{}'')]"

definition demo_folder_stale :: tree where
  "demo_folder_stale = [(''__upload__.tar.gz'', ''old archive''), (''app.py'', ''print(2)''),
                        (''config.json'', ''{}'')]"

definition archive_names :: "tree \<Rightarrow> string set" where
  "archive_names tf = fst ` set tf"

text \<open>
  What unpacking the members leaves at their paths: a member file with its content, a
  member directory; of two members with the same path the later one counts.
\<close>

fun member_dest :: "string \<Rightarrow> string \<Rightarrow> member \<Rightarrow> string list" where
  "member_dest cw target (MFile name data) = resolve cw (path_join target name)"
| "member_dest cw target (MDir name) = resolve cw (path_join target name)"

fun member_node :: "member \<Rightarrow> node" where
  "member_node (MFile name data) = File data"
| "member_node (MDir name) = Dir"

fun unpacked :: "string \<Rightarrow> string \<Rightarrow> member list \<Rightarrow> filesystem" where
  "unpacked cw target [] = (\<lambda>q. None)"
| "unpacked cw target (m # ms) =
     (\<lambda>q. case unpacked cw target ms q of
            Some n \<Rightarrow> Some n
          | None \<Rightarrow> (if q = member_dest cw target m then Some (member_node m) else None))"

text \<open>The same deployment when the deploy directory cannot be removed.\<close>

definition demo_env_locked :: env where
  "demo_env_locked =
     demo_env_tar\<lparr>rmtree_fault :=
       (\<lambda>r. if r = [''deploy'']
            then Some (OSError ''[Errno 13] Permission denied'', (\<lambda>q. True)) else None)\<rparr>"

text \<open>
  A line that ends the wait for \<^verbatim>\<open>DONE\<close> or \<^verbatim>\<open>ERR_CHECKSUM\<close>, a line with a given response,
  and a controller at the start of an attempt.
\<close>

fun final_reply :: "(bytes \<Rightarrow> string option) \<Rightarrow> bytes \<times> rat \<Rightarrow> bool" where
  "final_reply dec (line, dt) =
     (line \<noteq> [] \<and> (response dec line = ''DONE'' \<or> startswith (response dec line) ''ERR_CHECKSUM''))"

fun replies :: "(bytes \<Rightarrow> string option) \<Rightarrow> string \<Rightarrow> bytes \<times> rat \<Rightarrow> bool" where
  "replies dec token (line, dt) = (line \<noteq> [] \<and> response dec line = token)"

definition demo_ctl :: "(bytes \<times> rat) list \<Rightarrow> ctl" where
  "demo_ctl lines = \<lparr>pending = lines, clock = 0, sent = []\<rparr>"
section \<open>Basic facts about the effects\<close>

lemma emit_simps [simp]:
  "config (emit e st) = config st" "rx (emit e st) = rx st" "fs (emit e st) = fs st"
  "trace (emit e st) = trace st @ [e]"
  by (simp_all add: emit_def)

lemma ser_write_simps [simp]:
  "config (ser_write m st) = config st" "rx (ser_write m st) = rx st" "fs (ser_write m st) = fs st"
  "trace (ser_write m st) = trace st @ [Tx m]"
  by (simp_all add: ser_write_def)

lemma log_simps [simp]:
  "config (log env msg st) = config st" "rx (log env msg st) = rx st"
  "trace (log env msg st) = trace st @ [Log msg]"
  by (simp_all add: log_def Let_def split: sum.splits)

lemma progress_cb_simps [simp]:
  "config (progress_cb g st) = config st" "rx (progress_cb g st) = rx st" "fs (progress_cb g st) = fs st"
  "trace (progress_cb g st) = trace st @ [Tx (''PROGRESS '' @ py_str g @ nl)]"
  by (simp_all add: progress_cb_def)

lemmas path_eval =
  resolve_def abspath_def normpath_def path_join_def dirname_def rstrip_slash_def
  startswith_def endswith_def norm_step_def

lemmas demo_eval =
  demo_env_def demo_fs_def demo_agent_def ARCHIVE_PATH_def LOG_PATH_def

lemma nat_digits_numeral [simp]:
  "nat_digits (numeral k) =
     (if (numeral k :: nat) < 10 then [''0123456789'' ! numeral k]
      else nat_digits (numeral k div 10) @ [''0123456789'' ! (numeral k mod 10)])"
  by (rule nat_digits.simps)

lemma nat_digits_small [simp]: "nat_digits 0 = ''0''" "nat_digits (Suc 0) = ''1''"
  by (simp_all add: nat_digits.simps)

section \<open>Paths\<close>

lemma split_on_nonempty: "split_on c s \<noteq> []"
  by (induction s) (auto split: list.splits)

lemma split_on_append_name:
  "c \<notin> set name \<Longrightarrow> split_on c (z @ name) = butlast (split_on c z) @ [last (split_on c z) @ name]"
proof (induction z)
  case Nil
  then show ?case by (induction name) (auto split: list.splits)
next
  case (Cons x z)
  then show ?case using split_on_nonempty[of c z]
    by (cases "split_on c z") (auto split: list.splits)
qed

lemma split_on_single: "split_on c z = [w] \<Longrightarrow> c \<notin> set z"
proof (induction z arbitrary: w)
  case Nil
  then show ?case by simp
next
  case (Cons x z)
  then show ?case using split_on_nonempty[of c z]
    by (cases "split_on c z") (auto split: if_splits)
qed

lemma split_on_last_sep: "z \<noteq> [] \<Longrightarrow> last z = c \<Longrightarrow> last (split_on c z) = []"
proof (induction z)
  case Nil
  then show ?case by simp
next
  case (Cons x z)
  show ?case
  proof (cases "z = []")
    case True
    then show ?thesis using Cons by simp
  next
    case False
    then have l: "last z = c" using Cons by simp
    then have ih: "last (split_on c z) = []" using Cons False by simp
    have "c \<in> set z" using l False by (metis last_in_set)
    then obtain w v ws where "split_on c z = w # v # ws"
      using split_on_single[of c z] split_on_nonempty[of c z]
      by (cases "split_on c z"; cases "tl (split_on c z)") auto
    then show ?thesis using ih by auto
  qed
qed

lemma split_on_dir_name:
  assumes "c \<notin> set name" and "z = [] \<or> last z = c"
  shows "split_on c (z @ name) = butlast (split_on c z) @ [name]"
proof (cases "z = []")
  case True
  then show ?thesis using split_on_append_name[OF assms(1), of "[]"] by simp
next
  case False
  then have "last (split_on c z) = []" using assms(2) split_on_last_sep by auto
  then show ?thesis using split_on_append_name[OF assms(1), of z] by simp
qed

lemma path_join_name:
  assumes "simple_name name"
  shows "\<exists>z. path_join d name = z @ name \<and> (z = [] \<or> last z = CHR ''/'')"
proof -
  have ns: "\<not> startswith name ''/''" using assms
    by (cases name) (auto simp: simple_name_def startswith_def)
  show ?thesis
  proof (cases "d = [] \<or> endswith d ''/''")
    case True
    then have "path_join d name = d @ name" using ns by (simp add: path_join_def)
    moreover have "d = [] \<or> last d = CHR ''/''"
      using True by (auto simp: endswith_def last_drop dest!: arg_cong[where f=last])
    ultimately show ?thesis by blast
  next
    case False
    then have "path_join d name = (d @ ''/'') @ name" using ns by (simp add: path_join_def)
    then show ?thesis by (metis last_snoc)
  qed
qed

lemma path_join_suffix:
  assumes "p = z @ name" "z = [] \<or> last z = CHR ''/''" "\<not> startswith p ''/''"
  shows "\<exists>w. path_join cw p = w @ name \<and> (w = [] \<or> last w = CHR ''/'')"
proof (cases "cw = [] \<or> endswith cw ''/''")
  case True
  then have j: "path_join cw p = (cw @ z) @ name" using assms by (simp add: path_join_def)
  have "cw = [] \<or> last cw = CHR ''/''"
    using True by (auto simp: endswith_def last_drop dest!: arg_cong[where f=last])
  then have "cw @ z = [] \<or> last (cw @ z) = CHR ''/''" using assms(2) by (cases "z = []") auto
  then show ?thesis using j by blast
next
  case False
  then have j: "path_join cw p = (cw @ ''/'' @ z) @ name" using assms by (simp add: path_join_def)
  have "last (cw @ ''/'' @ z) = CHR ''/''" using assms(2) by auto
  then show ?thesis using j by blast
qed

lemma resolve_join_name:
  assumes "simple_name name"
  shows "\<exists>base. resolve cw (path_join d name) = base @ [name]"
proof -
  obtain z where z: "path_join d name = z @ name" "z = [] \<or> last z = CHR ''/''"
    using path_join_name[OF assms] by blast
  define x where "x = (if startswith (path_join d name) ''/'' then path_join d name
                       else path_join cw (path_join d name))"
  have "\<exists>w. x = w @ name \<and> (w = [] \<or> last w = CHR ''/'')"
    using z path_join_suffix[OF z, of cw] by (auto simp: x_def)
  then obtain w where w: "x = w @ name" "w = [] \<or> last w = CHR ''/''" by blast
  have ns: "CHR ''/'' \<notin> set name" using assms by (simp add: simple_name_def)
  have sp: "split_on (CHR ''/'') x = butlast (split_on (CHR ''/'') w) @ [name]"
    unfolding w(1) by (rule split_on_dir_name[OF ns w(2)])
  have "resolve cw (path_join d name) = foldl (norm_step True) [] (split_on (CHR ''/'') x)"
    by (simp add: resolve_def x_def)
  also have "\<dots> = foldl (norm_step True) [] (butlast (split_on (CHR ''/'') w)) @ [name]"
    unfolding sp using assms by (simp add: norm_step_def simple_name_def)
  finally show ?thesis by blast
qed

lemma archive_log_distinct:
  "resolve (cwd env) (LOG_PATH env) \<noteq> resolve (cwd env) (ARCHIVE_PATH env)"
proof -
  obtain b1 where b1: "resolve (cwd env) (LOG_PATH env) = b1 @ [''upload.log'']"
    unfolding LOG_PATH_def using resolve_join_name[of "''upload.log''"] by (auto simp: simple_name_def)
  obtain b2 where b2: "resolve (cwd env) (ARCHIVE_PATH env) = b2 @ [''__upload__.tar.gz'']"
    unfolding ARCHIVE_PATH_def using resolve_join_name[of "''__upload__.tar.gz''"] by (auto simp: simple_name_def)
  show ?thesis unfolding b1 b2 by simp
qed

section \<open>The payload reads\<close>

lemma recv_n_loop_silent:
  assumes "recv_n_loop n buf st = Some y"
  shows "\<not> (int (length buf) < n \<and> rx st = [])"
proof (induct rule: recv_n_loop.raw_induct [OF _ assms])
  case (1 f n buf st y)
  show ?case
  proof
    assume a: "int (length buf) < n \<and> rx st = []"
    then have "f n buf (emit (Sleep (1 / 100)) (st\<lparr>rx := []\<rparr>)) = Some y"
      using 1(2) by (simp add: ser_read_def)
    from 1(1)[OF this] a show False by (simp add: emit_def)
  qed
qed

lemma recv_n_loop_None: "int (length buf) < n \<Longrightarrow> rx st = [] \<Longrightarrow> recv_n_loop n buf st = None"
  using recv_n_loop_silent[of n buf st] by (cases "recv_n_loop n buf st") auto

lemma recv_n_loop_done: "\<not> int (length buf) < n \<Longrightarrow> recv_n_loop n buf st = Some (buf, st)"
  by (subst recv_n_loop.simps) simp

lemma recv_n_loop_empty:
  "int (length buf) < n \<Longrightarrow> rx st = [] # cs \<Longrightarrow>
   recv_n_loop n buf st = recv_n_loop n buf (emit (Sleep (1 / 100)) (st\<lparr>rx := cs\<rparr>))"
  by (subst recv_n_loop.simps) (simp add: ser_read_def)

lemma recv_n_loop_chunk:
  "int (length buf) < n \<Longrightarrow> rx st = c # cs \<Longrightarrow> c \<noteq> [] \<Longrightarrow> k = nat (n - int (length buf)) \<Longrightarrow>
   recv_n_loop n buf st =
     recv_n_loop n (buf @ take k c) (st\<lparr>rx := (if length c \<le> k then cs else drop k c # cs)\<rparr>)"
  by (subst recv_n_loop.simps) (simp add: ser_read_def)

lemma recv_n_loop_char:
  "(n \<le> int (length buf) + int (length (concat (rx st)))
      \<longrightarrow> (\<exists>st'. recv_n_loop n buf st
                  = Some (buf @ take (nat (n - int (length buf))) (concat (rx st)), st')
                \<and> config st' = config st \<and> fs st' = fs st
                \<and> (\<exists>ds. trace st' = trace st @ map Sleep ds)))
   \<and> (\<not> n \<le> int (length buf) + int (length (concat (rx st)))
      \<longrightarrow> recv_n_loop n buf st = None)"
proof (induction "length (concat (rx st)) + length (rx st)" arbitrary: buf st rule: less_induct)
  case less
  show ?case
  proof (cases "int (length buf) < n")
    case False
    then show ?thesis
      by (auto simp: recv_n_loop_done intro: exI[of _ "[]"])
  next
    case lt: True
    show ?thesis
    proof (cases "rx st")
      case Nil
      then show ?thesis using lt by (simp add: recv_n_loop_None)
    next
      case (Cons c cs)
      show ?thesis
      proof (cases "c = []")
        case True
        let ?st1 = "emit (Sleep (1 / 100)) (st\<lparr>rx := cs\<rparr>)"
        have m: "length (concat (rx ?st1)) + length (rx ?st1) < length (concat (rx st)) + length (rx st)"
          using Cons True by (simp add: emit_def)
        have e: "recv_n_loop n buf st = recv_n_loop n buf ?st1"
          using recv_n_loop_empty[OF lt] Cons True by simp
        have c: "concat (rx ?st1) = concat (rx st)" using Cons True by (simp add: emit_def)
        have s: "config ?st1 = config st" "fs ?st1 = fs st" "trace ?st1 = trace st @ [Sleep (1 / 100)]"
          by (simp_all add: emit_def)
        have ih: "(n \<le> int (length buf) + int (length (concat (rx st)))
            \<longrightarrow> (\<exists>st'. recv_n_loop n buf ?st1
                  = Some (buf @ take (nat (n - int (length buf))) (concat (rx st)), st')
                \<and> config st' = config st \<and> fs st' = fs st
                \<and> (\<exists>ds. trace st' = (trace st @ [Sleep (1 / 100)]) @ map Sleep ds)))
          \<and> (\<not> n \<le> int (length buf) + int (length (concat (rx st)))
            \<longrightarrow> recv_n_loop n buf ?st1 = None)"
          using less[OF m, of buf] unfolding c s .
        show ?thesis
        proof (cases "n \<le> int (length buf) + int (length (concat (rx st)))")
          case enough: True
          then obtain st' ds where r: "recv_n_loop n buf ?st1
                  = Some (buf @ take (nat (n - int (length buf))) (concat (rx st)), st')"
              "config st' = config st" "fs st' = fs st"
              "trace st' = (trace st @ [Sleep (1 / 100)]) @ map Sleep ds"
            using ih by blast
          have "trace st' = trace st @ map Sleep ((1 / 100) # ds)" using r(4) by simp
          then show ?thesis using enough r(1-3) unfolding e by blast
        next
          case False
          then show ?thesis using ih unfolding e by simp
        qed
      next
        case False
        define k where "k = nat (n - int (length buf))"
        define j where "j = min k (length c)"
        define chunk where "chunk = take k c"
        define rest where "rest = (if length c \<le> k then cs else drop k c # cs)"
        define al where "al = concat (rx st)"
        let ?st1 = "st\<lparr>rx := rest\<rparr>"
        have kpos: "0 < k" using lt by (simp add: k_def)
        have jpos: "0 < j" "j \<le> k" "j \<le> length c" using kpos False by (auto simp: j_def)
        have tk: "chunk = take j al" using Cons by (auto simp: j_def min_def chunk_def al_def)
        have cr: "concat (rx ?st1) = drop j al" using Cons by (auto simp: j_def min_def rest_def al_def)
        have lal: "j \<le> length al" using Cons jpos by (simp add: al_def)
        have lj: "length chunk = j" using lal by (simp add: tk)
        have m: "length (concat (rx ?st1)) + length (rx ?st1) < length (concat (rx st)) + length (rx st)"
          unfolding cr using Cons jpos lal by (auto simp: rest_def al_def)
        have e: "recv_n_loop n buf st = recv_n_loop n (buf @ chunk) ?st1"
          using recv_n_loop_chunk[OF lt Cons False k_def] by (simp add: chunk_def rest_def)
        have tot: "int (length (buf @ chunk)) + int (length (concat (rx ?st1)))
            = int (length buf) + int (length al)"
          unfolding cr using lj lal by simp
        have res: "(buf @ chunk) @ take (nat (n - int (length (buf @ chunk)))) (concat (rx ?st1))
            = buf @ take k al"
        proof -
          have "nat (n - int (length (buf @ chunk))) = k - j"
            using lj lt by (simp add: k_def)
          moreover have "take k al = take j al @ take (k - j) (drop j al)"
            using jpos by (metis le_add_diff_inverse take_add)
          ultimately show ?thesis unfolding cr tk by simp
        qed
        have s: "config ?st1 = config st" "fs ?st1 = fs st" "trace ?st1 = trace st"
          by simp_all
        from less[OF m, of "buf @ chunk"] show ?thesis
          unfolding e tot res s unfolding al_def k_def by simp
      qed
    qed
  qed
qed


lemma fs_write_twice: "fs_write (fs_write f r a) r b = fs_write f r (a @ b)"
  by (cases "f r"; simp add: fs_write_def split: node.splits)

lemma fs_write_nil: "fs_write f r [] = f"
  by (cases "f r"; auto simp add: fs_write_def split: node.splits)

lemma read_exact_loop_silent:
  assumes "read_exact_loop n r cb got h lp st = Some y"
  shows "\<not> (got < n \<and> rx st = [])"
proof (induct rule: read_exact_loop.raw_induct [OF _ assms])
  case (1 f n r cb got h lp st y)
  show ?case
  proof
    assume a: "got < n \<and> rx st = []"
    then have "f n r cb got h lp (emit (Sleep (1 / 100)) (st\<lparr>rx := []\<rparr>)) = Some y"
      using 1(2) by (simp add: ser_read_def)
    from 1(1)[OF this] a show False by (simp add: emit_def)
  qed
qed

lemma read_exact_loop_None:
  "got < n \<Longrightarrow> rx st = [] \<Longrightarrow> read_exact_loop n r cb got h lp st = None"
  using read_exact_loop_silent[of n r cb got h lp st]
  by (cases "read_exact_loop n r cb got h lp st") auto

lemma read_exact_loop_done: "\<not> got < n \<Longrightarrow> read_exact_loop n r cb got h lp st = Some (got, h, st)"
  by (subst read_exact_loop.simps) simp

lemma read_exact_loop_empty:
  "got < n \<Longrightarrow> rx st = [] # cs \<Longrightarrow>
   read_exact_loop n r cb got h lp st
     = read_exact_loop n r cb got h lp (emit (Sleep (1 / 100)) (st\<lparr>rx := cs\<rparr>))"
  by (subst read_exact_loop.simps) (simp add: ser_read_def)

lemma read_exact_loop_chunk:
  assumes lt: "got < n" and rx: "rx st = c # cs" and ne: "c \<noteq> []"
  shows "read_exact_loop n r (Some progress_cb) got h lp st =
     (let k = nat (min 16384 (n - got));
          chunk = take k c;
          st1 = st\<lparr>rx := (if length c \<le> k then cs else drop k c # cs), fs := fs_write (fs st) r chunk\<rparr>;
          got1 = got + int (length chunk)
      in if got1 - lp \<ge> PROGRESS_INTERVAL
         then read_exact_loop n r (Some progress_cb) got1 (h @ chunk) got1 (progress_cb got1 st1)
         else read_exact_loop n r (Some progress_cb) got1 (h @ chunk) lp st1)"
proof -
  define k where "k = nat (min 16384 (n - got))"
  have kpos: "0 < k" using lt by (simp add: k_def)
  have tne: "take k c \<noteq> []" using kpos ne by simp
  have sr: "ser_read k (rx st) = (take k c, if length c \<le> k then cs else drop k c # cs)"
    by (simp add: ser_read_def rx)
  show ?thesis
    apply (subst read_exact_loop.simps)
    unfolding k_def[symmetric] sr
    using lt tne by (simp add: Let_def)
qed

lemma read_exact_loop_char:
  "(n \<le> got + int (length (concat (rx st)))
      \<longrightarrow> (\<exists>st' new gs. read_exact_loop n r (Some progress_cb) got h lp st
                  = Some (max got n, h @ take (nat (n - got)) (concat (rx st)), st')
                \<and> config st' = config st
                \<and> fs st' = fs_write (fs st) r (take (nat (n - got)) (concat (rx st)))
                \<and> trace st' = trace st @ new
                \<and> filter is_tx new = map (\<lambda>g. Tx (''PROGRESS '' @ py_str g @ nl)) gs
                \<and> (\<forall>e \<in> set new. is_tx e \<or> is_sleep e)
                \<and> spaced lp gs \<and> (\<forall>g \<in> set gs. g \<le> n)))
   \<and> (\<not> n \<le> got + int (length (concat (rx st)))
      \<longrightarrow> read_exact_loop n r (Some progress_cb) got h lp st = None)"
proof (induction "length (concat (rx st)) + length (rx st)" arbitrary: got h lp st rule: less_induct)
  case less
  show ?case
  proof (cases "got < n")
    case False
    then have a: "read_exact_loop n r (Some progress_cb) got h lp st = Some (max got n, h @ take (nat (n - got)) (concat (rx st)), st)"
      by (simp add: read_exact_loop_done max_def)
    have b: "fs st = fs_write (fs st) r (take (nat (n - got)) (concat (rx st)))"
      using False by (simp add: fs_write_nil)
    have en: "n \<le> got + int (length (concat (rx st)))" using False by simp
    have "\<exists>st' new gs. read_exact_loop n r (Some progress_cb) got h lp st
                  = Some (max got n, h @ take (nat (n - got)) (concat (rx st)), st')
                \<and> config st' = config st
                \<and> fs st' = fs_write (fs st) r (take (nat (n - got)) (concat (rx st)))
                \<and> trace st' = trace st @ new
                \<and> filter is_tx new = map (\<lambda>g. Tx (''PROGRESS '' @ py_str g @ nl)) gs
                \<and> (\<forall>e \<in> set new. is_tx e \<or> is_sleep e)
                \<and> spaced lp gs \<and> (\<forall>g \<in> set gs. g \<le> n)"
      apply (rule exI[of _ st], rule exI[of _ "[]"], rule exI[of _ "[]"])
      using a b by simp
    then show ?thesis using en by blast
  next
    case lt: True
    show ?thesis
    proof (cases "rx st")
      case Nil
      then show ?thesis using lt by (simp add: read_exact_loop_None)
    next
      case (Cons c cs)
      show ?thesis
      proof (cases "c = []")
        case True
        let ?st1 = "emit (Sleep (1 / 100)) (st\<lparr>rx := cs\<rparr>)"
        have m: "length (concat (rx ?st1)) + length (rx ?st1) < length (concat (rx st)) + length (rx st)"
          using Cons True by (simp add: emit_def)
        have e: "read_exact_loop n r (Some progress_cb) got h lp st = read_exact_loop n r (Some progress_cb) got h lp ?st1"
          using read_exact_loop_empty[OF lt] Cons True by simp
        have c: "concat (rx ?st1) = concat (rx st)" using Cons True by (simp add: emit_def)
        have s: "config ?st1 = config st" "fs ?st1 = fs st" "trace ?st1 = trace st @ [Sleep (1 / 100)]"
          by (simp_all add: emit_def)
        note ih = less[OF m, of got h lp, unfolded c s]
        show ?thesis
        proof (cases "n \<le> got + int (length (concat (rx st)))")
          case enough: True
          then obtain st' new gs where r: "read_exact_loop n r (Some progress_cb) got h lp ?st1
                  = Some (max got n, h @ take (nat (n - got)) (concat (rx st)), st')"
              "config st' = config st"
              "fs st' = fs_write (fs st) r (take (nat (n - got)) (concat (rx st)))"
              "trace st' = (trace st @ [Sleep (1 / 100)]) @ new"
              "filter is_tx new = map (\<lambda>g. Tx (''PROGRESS '' @ py_str g @ nl)) gs"
              "\<forall>e \<in> set new. is_tx e \<or> is_sleep e"
              "spaced lp gs" "\<forall>g \<in> set gs. g \<le> n"
            using ih by blast
          have "trace st' = trace st @ (Sleep (1 / 100) # new)" using r(4) by simp
          moreover have "filter is_tx (Sleep (1 / 100) # new) = map (\<lambda>g. Tx (''PROGRESS '' @ py_str g @ nl)) gs"
            using r(5) by simp
          moreover have "\<forall>e \<in> set (Sleep (1 / 100) # new). is_tx e \<or> is_sleep e"
            using r(6) by auto
          ultimately show ?thesis using enough r(1-3,7,8) unfolding e by blast
        next
          case False
          then show ?thesis using ih unfolding e by simp
        qed
      next
        case False
        define k where "k = nat (min 16384 (n - got))"
        define K where "K = nat (n - got)"
        define j where "j = min k (length c)"
        define chunk where "chunk = take k c"
        define rest where "rest = (if length c \<le> k then cs else drop k c # cs)"
        define al where "al = concat (rx st)"
        define st1 where "st1 = st\<lparr>rx := rest, fs := fs_write (fs st) r chunk\<rparr>"
        define got1 where "got1 = got + int (length chunk)"
        have kpos: "0 < k" "k \<le> K" using lt by (simp_all add: k_def K_def)
        have jpos: "0 < j" "j \<le> k" "j \<le> length c" using kpos False by (auto simp: j_def)
        have tk: "chunk = take j al" using Cons by (auto simp: j_def min_def chunk_def al_def)
        have lal: "j \<le> length al" using Cons jpos by (simp add: al_def)
        have lj: "length chunk = j" using lal by (simp add: tk)
        have g1: "got1 = got + int j" "got1 \<le> n" "got < got1"
          using lj jpos kpos lt by (auto simp: got1_def K_def)
        have e: "read_exact_loop n r (Some progress_cb) got h lp st =
           (if got1 - lp \<ge> PROGRESS_INTERVAL
            then read_exact_loop n r (Some progress_cb) got1 (h @ chunk) got1 (progress_cb got1 st1)
            else read_exact_loop n r (Some progress_cb) got1 (h @ chunk) lp st1)"
          using read_exact_loop_chunk[OF lt Cons False, of r h lp] by (simp add: Let_def k_def chunk_def rest_def st1_def got1_def)
        have cr: "concat (rx st1) = drop j al"
          using Cons by (auto simp: j_def min_def rest_def al_def st1_def)
        have m: "length (concat (rx st1)) + length (rx st1) < length (concat (rx st)) + length (rx st)"
          unfolding cr using Cons jpos lal by (auto simp: rest_def al_def st1_def)
        have tot: "got1 + int (length (concat (rx st1))) = got + int (length al)"
          unfolding cr using g1 lal by simp
        have Kj: "nat (n - got1) = K - j" using g1 by (simp add: K_def)
        have tK: "take K al = chunk @ take (K - j) (drop j al)"
          unfolding tk using jpos kpos by (metis le_add_diff_inverse take_add order_trans)
        have mx: "max got1 n = max got n" using g1 lt by simp
        have hres: "(h @ chunk) @ take (nat (n - got1)) (concat (rx st1)) = h @ take K al"
          unfolding Kj cr tK by simp
        have fres: "fs_write (fs st1) r (take (nat (n - got1)) (concat (rx st1))) = fs_write (fs st) r (take K al)"
          unfolding Kj cr tK by (simp add: st1_def fs_write_twice)
        show ?thesis
        proof (cases "got1 - lp \<ge> PROGRESS_INTERVAL")
          case no: False
          note ih = less[OF m, of got1 "h @ chunk" lp, unfolded tot hres fres mx]
          have e': "read_exact_loop n r (Some progress_cb) got h lp st
              = read_exact_loop n r (Some progress_cb) got1 (h @ chunk) lp st1"
            using e no by simp
          have s: "config st1 = config st" "trace st1 = trace st" by (simp_all add: st1_def)
          show ?thesis using ih unfolding e' s al_def K_def .
        next
          case yes: True
          let ?st2 = "progress_cb got1 st1"
          have s2: "rx ?st2 = rx st1" "fs ?st2 = fs st1" "config ?st2 = config st"
            "trace ?st2 = trace st @ [Tx (''PROGRESS '' @ py_str got1 @ nl)]"
            by (simp_all add: progress_cb_def ser_write_def emit_def st1_def)
          have m2: "length (concat (rx ?st2)) + length (rx ?st2) < length (concat (rx st)) + length (rx st)"
            using m by (simp add: s2)
          note ih = less[OF m2, of got1 "h @ chunk" got1, unfolded s2 tot hres fres mx]
          have e': "read_exact_loop n r (Some progress_cb) got h lp st
              = read_exact_loop n r (Some progress_cb) got1 (h @ chunk) got1 ?st2"
            using e yes by simp
          show ?thesis
          proof (cases "n \<le> got + int (length al)")
            case enough: True
            then obtain st' new gs where r: "read_exact_loop n r (Some progress_cb) got1 (h @ chunk) got1 ?st2
                    = Some (max got n, h @ take K al, st')"
                "config st' = config st"
                "fs st' = fs_write (fs st) r (take K al)"
                "trace st' = (trace st @ [Tx (''PROGRESS '' @ py_str got1 @ nl)]) @ new"
                "filter is_tx new = map (\<lambda>g. Tx (''PROGRESS '' @ py_str g @ nl)) gs"
                "\<forall>e \<in> set new. is_tx e \<or> is_sleep e"
                "spaced got1 gs" "\<forall>g \<in> set gs. g \<le> n"
              using ih by blast
            let ?new = "Tx (''PROGRESS '' @ py_str got1 @ nl) # new"
            have "trace st' = trace st @ ?new" using r(4) by simp
            moreover have "filter is_tx ?new = map (\<lambda>g. Tx (''PROGRESS '' @ py_str g @ nl)) (got1 # gs)"
              using r(5) by simp
            moreover have "\<forall>e \<in> set ?new. is_tx e \<or> is_sleep e"
              using r(6) by simp
            moreover have "spaced lp (got1 # gs)" using r(7) yes by simp
            moreover have "\<forall>g \<in> set (got1 # gs). g \<le> n" using r(8) g1 by simp
            ultimately show ?thesis using enough r(1-3) unfolding e' al_def K_def by blast
          next
            case False
            then show ?thesis using ih unfolding e' al_def by simp
          qed
        qed
      qed
    qed
  qed
qed

lemma spaced_gt: "spaced prev gs \<Longrightarrow> \<forall>g \<in> set gs. prev < g"
  by (induction gs arbitrary: prev) (fastforce simp: PROGRESS_INTERVAL_def)+

lemma spaced_sorted: "spaced prev gs \<Longrightarrow> sorted_wrt (<) gs"
  by (induction gs arbitrary: prev) (auto dest: spaced_gt)

lemma read_exact_cases:
  "read_exact env n p (Some progress_cb) st =
     (case fs_open True (cwd env) (fs st) p of
        Inl e \<Rightarrow> Some (Inl e, emit (OpenWrite p) st)
      | Inr fs1 \<Rightarrow>
          (case read_exact_loop n (resolve (cwd env) p) (Some progress_cb) 0 [] 0
                  ((emit (OpenWrite p) st)\<lparr>fs := fs1\<rparr>) of
             None \<Rightarrow> None
           | Some (got, h, st1) \<Rightarrow> Some (Inr (got, sha256 env h), st1)))"
  by (simp add: read_exact_def Let_def)

lemma demo_archive_resolve:
  "resolve (cwd demo_env) (ARCHIVE_PATH demo_env) = [''home'', ''pi'', ''app'', ''__upload__.tar.gz'']"
  by (simp add: demo_eval path_eval)

lemma demo_archive_open:
  "fs_open True (cwd demo_env) demo_fs (ARCHIVE_PATH demo_env)
     = Inr (demo_fs([''home'', ''pi'', ''app'', ''__upload__.tar.gz''] \<mapsto> File []))"
  unfolding fs_open_def demo_archive_resolve Let_def by (simp add: demo_eval path_join_def startswith_def endswith_def)

lemma py_str_65536: "py_str 65536 = ''65536''" by (simp add: py_str_def)
lemma py_str_131072: "py_str 131072 = ''131072''" by (simp add: py_str_def)
lemma py_str_tests: "py_str 0 = ''0''" "py_str (-9) = ''-9''" "py_str 1 = ''1''" "py_str 3 = ''3''" "py_str 1024 = ''1024''" by (simp_all add: py_str_def)

lemma read_exact_loop_block:
  assumes b: "length b = 16384" and le: "got + 16384 \<le> n"
  shows "read_exact_loop n r (Some progress_cb) got h lp \<lparr>config = cf, rx = b # cs, fs = f, trace = tr\<rparr> =
     (if got + 16384 - lp \<ge> 65536
      then read_exact_loop n r (Some progress_cb) (got + 16384) (h @ b) (got + 16384)
             \<lparr>config = cf, rx = cs, fs = fs_write f r b,
              trace = tr @ [Tx (''PROGRESS '' @ py_str (got + 16384) @ nl)]\<rparr>
      else read_exact_loop n r (Some progress_cb) (got + 16384) (h @ b) lp
             \<lparr>config = cf, rx = cs, fs = fs_write f r b, trace = tr\<rparr>)"
proof -
  have ne: "b \<noteq> []" using b by auto
  have lt: "got < n" using le by simp
  have k: "nat (min 16384 (n - got)) = 16384" using le by simp
  have tk: "take 16384 b = b" using b by simp
  show ?thesis
    apply (subst read_exact_loop_chunk[OF lt _ ne, of _ cs])
     apply simp
    unfolding k Let_def tk
    apply (simp add: b PROGRESS_INTERVAL_def progress_cb_def ser_write_def emit_def)
    done
qed



lemma demo_big_read:
  assumes b: "length b = 16384"
  shows "\<exists>res st'. read_exact demo_env 131072 (ARCHIVE_PATH demo_env) (Some progress_cb)
       (demo_agent [b, b, b, b, b, b, b, b]) = Some (res, st')
   \<and> trace st' = [OpenWrite (ARCHIVE_PATH demo_env),
                   Tx (''PROGRESS 65536'' @ nl), Tx (''PROGRESS 131072'' @ nl)]"
  unfolding read_exact_cases
  apply (simp add: demo_agent_def demo_archive_open demo_archive_resolve emit_def)
  apply (simp add: read_exact_loop_block[OF b] read_exact_loop_done py_str_65536 py_str_131072)
  done

section \<open>Facts about the command loop\<close>

lemma fs_open_other:
  "fs_open trunc cw f p = Inr f1 \<Longrightarrow> q \<noteq> resolve cw p \<Longrightarrow> f1 q = f q"
  by (auto simp: fs_open_def Let_def split: if_splits option.splits node.splits)

lemma fs_write_other: "q \<noteq> r \<Longrightarrow> fs_write f r d q = f q"
  by (auto simp: fs_write_def split: option.splits node.splits)

lemma log_fs_other:
  "q \<noteq> resolve (cwd env) (LOG_PATH env) \<Longrightarrow> fs (log env msg st) q = fs st q"
  by (auto simp: log_def Let_def fs_write_other dest: fs_open_other split: sum.splits)

lemma log_fs_archive [simp]:
  "fs (log env msg st) (resolve (cwd env) (ARCHIVE_PATH env)) = fs st (resolve (cwd env) (ARCHIVE_PATH env))"
  using archive_log_distinct[of env] by (simp add: log_fs_other)

lemma upload_not_config: "startswith header ''UPLOAD'' \<Longrightarrow> \<not> startswith header ''CONFIG''"
  by (auto simp: startswith_def)

lemma run_not_cmd: "\<not> startswith ''RUN'' ''CONFIG''" "\<not> startswith ''RUN'' ''UPLOAD''"
  by (simp_all add: startswith_def)


lemma LOG_PATH_nonempty [simp]: "LOG_PATH env \<noteq> []"
  by (auto simp: LOG_PATH_def path_join_def startswith_def)

lemma ARCHIVE_PATH_nonempty [simp]: "ARCHIVE_PATH env \<noteq> []"
  by (auto simp: ARCHIVE_PATH_def path_join_def startswith_def)

lemma log_fs_at:
  "fs (log env msg st) (resolve (cwd env) (LOG_PATH env)) =
     (case fs st (resolve (cwd env) (LOG_PATH env)) of
        Some (File d) \<Rightarrow> Some (File (d @ ''['' @ utcnow env (length (trace st)) @ ''Z] '' @ msg @ nl))
      | Some Dir \<Rightarrow> Some Dir
      | None \<Rightarrow>
          (if fs st (butlast (resolve (cwd env) (LOG_PATH env))) = Some Dir
           then Some (File (''['' @ utcnow env (length (trace st)) @ ''Z] '' @ msg @ nl))
           else None))"
  by (auto simp: log_def Let_def fs_open_def fs_write_def split: option.splits node.splits)

lemma main_pass_returns:
  "read_line env st0 = (Some header, st) \<Longrightarrow> header \<noteq> [] \<Longrightarrow>
   handle_header env header st = Some (None, st') \<Longrightarrow> main_pass env st0 = Some st'"
  by (simp add: main_pass_def)

lemma demo_log_resolve:
  "resolve (cwd demo_env) (LOG_PATH demo_env) = [''home'', ''pi'', ''app'', ''upload.log'']"
  by (simp add: demo_eval path_eval)

lemma fs_open_trunc_at: "fs_open True cw f p = Inr f1 \<Longrightarrow> f1 (resolve cw p) = Some (File [])"
  by (auto simp: fs_open_def Let_def split: if_splits option.splits node.splits)

lemma fs_write_at: "f r = Some (File d) \<Longrightarrow> fs_write f r x r = Some (File (d @ x))"
  by (simp add: fs_write_def)

lemma read_exact_ok:
  assumes "read_exact env n p (Some progress_cb) st = Some (Inr (got, actual), st')"
  shows "\<exists>new. got = max 0 n
     \<and> actual = sha256 env (take (nat n) (concat (rx st)))
     \<and> fs st' (resolve (cwd env) p) = Some (File (take (nat n) (concat (rx st))))
     \<and> trace st' = trace st @ OpenWrite p # new
     \<and> (\<forall>e \<in> set new. is_tx e \<or> is_sleep e)
     \<and> config st' = config st"
proof -
  let ?r = "resolve (cwd env) p"
  from assms obtain fs1 where o: "fs_open True (cwd env) (fs st) p = Inr fs1"
    by (auto simp: read_exact_cases split: sum.splits)
  let ?st0 = "(emit (OpenWrite p) st)\<lparr>fs := fs1\<rparr>"
  from assms o obtain h where l: "read_exact_loop n ?r (Some progress_cb) 0 [] 0 ?st0 = Some (got, h, st')"
      and a: "actual = sha256 env h"
    by (auto simp: read_exact_cases split: option.splits)
  have en: "n \<le> 0 + int (length (concat (rx ?st0)))"
    using l read_exact_loop_char[of n 0 ?st0 ?r "[]" 0]
    by (cases "n \<le> 0 + int (length (concat (rx ?st0)))") auto
  then obtain st2 new gs where r: "read_exact_loop n ?r (Some progress_cb) 0 [] 0 ?st0
                  = Some (max 0 n, [] @ take (nat (n - 0)) (concat (rx ?st0)), st2)"
      "config st2 = config ?st0"
      "fs st2 = fs_write (fs ?st0) ?r (take (nat (n - 0)) (concat (rx ?st0)))"
      "trace st2 = trace ?st0 @ new"
      "\<forall>e \<in> set new. is_tx e \<or> is_sleep e"
    using read_exact_loop_char[of n 0 ?st0 ?r "[]" 0] by blast
  have eq: "st2 = st'" "got = max 0 n" "h = take (nat n) (concat (rx st))" using l r(1) by simp_all
  have "fs st' ?r = Some (File (take (nat n) (concat (rx st))))"
    using r(3) fs_write_at[of fs1 ?r "[]", OF fs_open_trunc_at[OF o]] unfolding eq(1) by simp
  moreover have "trace st' = trace st @ OpenWrite p # new" using r(4) unfolding eq(1) by simp
  moreover have "config st' = config st" using r(2) unfolding eq(1) by simp
  ultimately show ?thesis using eq(2,3) a r(5) by blast
qed

lemma handle_upload_eq:
  assumes "config st = Some cfg" "startswith header ''UPLOAD''"
    "split_ws 3 header = [w, size_s, expected, name]" "py_int size_s = Some n"
  shows "handle_header env header st =
    (let deploy_dir = (case cfg_directory cfg of None \<Rightarrow> DEFAULT_APP_DIR env | Some d \<Rightarrow> d);
         parent = (if dirname deploy_dir \<noteq> [] then dirname deploy_dir else deploy_dir);
         st1 = emit (Makedirs parent) st
     in case fs_makedirs (cwd env) (fs st1) parent of
          Inl e \<Rightarrow> Some (Some e, st1)
        | Inr fs1 \<Rightarrow>
            (let st2 = ser_write (''OK'' @ nl)
                         (log env (''UPLOAD requested: name='' @ name @ '' size='' @ py_str n
                                    @ '' sha256='' @ expected @ '' deploy_to='' @ deploy_dir)
                            (st1\<lparr>fs := fs1\<rparr>))
             in case read_exact env n (ARCHIVE_PATH env) (Some progress_cb) st2 of
                  None \<Rightarrow> None
                | Some (Inl e, st3) \<Rightarrow> Some (Some e, st3)
                | Some (Inr (got, sha256_actual), st3) \<Rightarrow>
                    Some (None, upload_finish env deploy_dir expected got sha256_actual st3)))"
  using assms by (simp add: handle_header_def upload_not_config Let_def)

lemma do_remove_file:
  "fs st (resolve (cwd env) p) = Some (File d) \<Longrightarrow> p \<noteq> [] \<Longrightarrow>
   fs (do_remove env p st) (resolve (cwd env) p) = None \<and> trace (do_remove env p st) = trace st @ [Remove p]"
  by (simp add: do_remove_def Let_def fs_remove_def)

lemma read_exact_returns:
  assumes "fs_open True (cwd env) (fs st) p = Inr fs1" "n \<le> int (length (concat (rx st)))"
  shows "\<exists>got actual st'. read_exact env n p (Some progress_cb) st = Some (Inr (got, actual), st')"
proof -
  let ?st0 = "(emit (OpenWrite p) st)\<lparr>fs := fs1\<rparr>"
  have "n \<le> 0 + int (length (concat (rx ?st0)))" using assms(2) by simp
  then obtain y where "read_exact_loop n (resolve (cwd env) p) (Some progress_cb) 0 [] 0 ?st0 = Some y"
    using read_exact_loop_char[of n 0 ?st0 "resolve (cwd env) p" "[]" 0] by blast
  then show ?thesis using assms(1) by (cases y) (auto simp: read_exact_cases)
qed

lemma handle_upload_returns:
  assumes "config st = Some cfg" "startswith header ''UPLOAD''"
    "split_ws 3 header = [w, size_s, expected, name]" "py_int size_s = Some n"
    and dd: "deploy_dir = (case cfg_directory cfg of None \<Rightarrow> DEFAULT_APP_DIR env | Some d \<Rightarrow> d)"
    and pp: "parent = (if dirname deploy_dir \<noteq> [] then dirname deploy_dir else deploy_dir)"
    and mk: "fs_makedirs (cwd env) (fs st) parent = Inr fs1"
    and op: "fs_open True (cwd env)
               (fs (log env m ((emit (Makedirs parent) st)\<lparr>fs := fs1\<rparr>))) (ARCHIVE_PATH env) = Inr fs2"
    and m: "m = ''UPLOAD requested: name='' @ name @ '' size='' @ py_str n
                                    @ '' sha256='' @ expected @ '' deploy_to='' @ deploy_dir"
    and en: "n \<le> int (length (concat (rx st)))"
  shows "\<exists>st'. handle_header env header st = Some (None, st')"
proof -
  let ?st2 = "ser_write (''OK'' @ nl) (log env m ((emit (Makedirs parent) st)\<lparr>fs := fs1\<rparr>))"
  have "fs_open True (cwd env) (fs ?st2) (ARCHIVE_PATH env) = Inr fs2" using op by simp
  moreover have "n \<le> int (length (concat (rx ?st2)))" using en by simp
  ultimately obtain got actual st3 where
    "read_exact env n (ARCHIVE_PATH env) (Some progress_cb) ?st2 = Some (Inr (got, actual), st3)"
    using read_exact_returns by blast
  then show ?thesis
    unfolding handle_upload_eq[OF assms(1-4), of env] Let_def dd[symmetric] pp[symmetric]
    using mk unfolding m by simp
qed

lemma demo_upload_returns:
  assumes "split_ws 3 header = [w, ''4'', expected, name]" "startswith header ''UPLOAD''"
  shows "\<exists>st'. handle_header demo_env header ((demo_agent [''abcd''])\<lparr>config := Some demo_config\<rparr>) = Some (None, st')"
proof -
  let ?st = "(demo_agent [''abcd''])\<lparr>config := Some demo_config\<rparr>"
  have i: "py_int ''4'' = Some 4"
    by (simp add: py_int_def c_space_def is_digit_def digits_val_def digit_val_def)
  have d: "dirname ''/deploy'' = ''/''" by (simp add: dirname_def rstrip_slash_def)
  have r: "resolve ''/home/pi'' ''/'' = []" by (simp add: path_eval)
  have root: "demo_fs [] = Some Dir" by (simp add: demo_fs_def)
  have mk: "fs_makedirs (cwd demo_env) (fs ?st) ''/'' = Inr (\<lambda>q. if prefix q [] then Some Dir else demo_fs q)"
    by (simp add: fs_makedirs_def demo_env_def r demo_agent_def root Let_def)
  let ?st1 = "(emit (Makedirs ''/'') ?st)\<lparr>fs := (\<lambda>q. if prefix q [] then Some Dir else demo_fs q)\<rparr>"
  have op: "\<exists>fs2. fs_open True (cwd demo_env) (fs (log demo_env m ?st1)) (ARCHIVE_PATH demo_env) = Inr fs2" for m
  proof -
    have a: "fs (log demo_env m ?st1) (resolve (cwd demo_env) (ARCHIVE_PATH demo_env)) = None"
      by (simp only: log_fs_archive) (simp add: demo_archive_resolve demo_fs_def)
    have "butlast (resolve (cwd demo_env) (ARCHIVE_PATH demo_env)) \<noteq> resolve (cwd demo_env) (LOG_PATH demo_env)"
      by (simp add: demo_archive_resolve demo_log_resolve)
    then have b: "fs (log demo_env m ?st1) (butlast (resolve (cwd demo_env) (ARCHIVE_PATH demo_env))) = Some Dir"
      by (simp add: log_fs_other) (simp add: demo_archive_resolve demo_fs_def)
    show ?thesis unfolding fs_open_def Let_def a b by simp
  qed
  then obtain fs2 where op': "fs_open True (cwd demo_env)
      (fs (log demo_env (''UPLOAD requested: name='' @ name @ '' size='' @ py_str 4
                                    @ '' sha256='' @ expected @ '' deploy_to='' @ ''/deploy'') ?st1))
      (ARCHIVE_PATH demo_env) = Inr fs2"
    by blast
  show ?thesis
    apply (rule handle_upload_returns[OF _ assms(2) assms(1) i _ _ mk op' refl, of demo_config])
    by (simp_all add: demo_agent_def demo_config_def d)
qed


lemma is_space_eval [simp]:
  "is_space (CHR '' '')" "is_space (CHR 0x0A)"
  "\<not> is_space (CHR ''C'')" "\<not> is_space (CHR ''O'')" "\<not> is_space (CHR ''N'')" "\<not> is_space (CHR ''F'')"
  "\<not> is_space (CHR ''I'')" "\<not> is_space (CHR ''G'')" "\<not> is_space (CHR ''a'')" "\<not> is_space (CHR ''b'')"
  "\<not> is_space (CHR ''c'')"
  by (simp_all add: is_space_def)

lemma config_abc_split: "split_ws 1 ''CONFIG abc'' = [''CONFIG'', ''abc'']"
  by (simp add: numeral_eq_Suc)

lemma py_int_abc: "py_int ''abc'' = None"
  by (simp add: py_int_def c_space_def is_digit_def)

lemma stream_lines_trace:
  "trace (stream_lines env ls st) = trace st @
     concat (map (\<lambda>l. [Log (''APP: '' @ rstrip_nl l), Tx (rstrip_nl l @ nl)]) (filter (\<lambda>l. l \<noteq> []) ls))"
  by (induction ls arbitrary: st) auto

lemma filter_tx_stream:
  "filter is_tx (concat (map (\<lambda>l. [Log (f l), Tx (g l)]) ls)) = map (\<lambda>l. Tx (g l)) ls"
  by (induction ls) auto

lemma log_keeps:
  "fs st q = Some y \<Longrightarrow> \<exists>y'. fs (log env msg st) q = Some y'"
  by (cases "q = resolve (cwd env) (LOG_PATH env)")
     (auto simp: log_fs_other log_fs_at split: option.splits node.splits)

lemma log_keeps_exists: "fs_exists cw (fs st) p \<Longrightarrow> fs_exists cw (fs (log env msg st)) p"
  unfolding fs_exists_def using log_keeps[of st "resolve cw p"] by fastforce

lemma handle_run_eq:
  assumes "config st = Some cfg"
    and "main_path = path_join (case cfg_directory cfg of None \<Rightarrow> DEFAULT_APP_DIR env | Some d \<Rightarrow> d)
                               (case cfg_main cfg of None \<Rightarrow> ''main.py'' | Some m \<Rightarrow> m)"
    and "fs_exists (cwd env) (fs st) main_path"
    and "cmd = [''python3'', ''-u'', main_path] @ (case cfg_args cfg of None \<Rightarrow> [] | Some a \<Rightarrow> a)"
    and "st1 = emit (Popen cmd) (log env (''Starting process: '' @ join_with '' '' cmd)
                                   (log env ''RUN command received; starting application.'' st))"
  shows "handle_header env ''RUN'' st =
      (case popen env cmd of
         Inl e \<Rightarrow> Some (None, ser_write (''ERR_RUN '' @ exn_str e @ nl)
                           (log env (''Failed to start process: '' @ exn_str e) st1))
       | Inr proc \<Rightarrow>
           (case ending proc of
              Hangs \<Rightarrow> None
            | StreamError e \<Rightarrow>
                Some (None, ser_write (''ERR_STREAM '' @ exn_str e @ nl)
                        (log env (''Exception while streaming process output: '' @ exn_str e)
                           (stream_lines env (out_lines proc) (ser_write (''RUNNING'' @ nl) st1))))
            | Exited code \<Rightarrow>
                Some (None, ser_write (''EXIT '' @ py_str code @ nl)
                        (log env (''Process exited with code '' @ py_str code)
                           (stream_lines env (out_lines proc) (ser_write (''RUNNING'' @ nl) st1))))))"
proof -
  let ?st0 = "log env ''RUN command received; starting application.'' st"
  have ex: "fs_exists (cwd env) (fs ?st0) main_path" using assms(3) by (rule log_keeps_exists)
  have hh: "handle_header env ''RUN'' st =
      (case run_with_config env cfg ?st0 of None \<Rightarrow> None | Some st1 \<Rightarrow> Some (None, st1))"
    using assms(1) by (simp add: handle_header_def run_not_cmd)
  show ?thesis
    using ex unfolding hh run_with_config_def Let_def assms(2)[symmetric] assms(4)[symmetric] assms(5)[symmetric]
    by (simp split: sum.splits proc_end.splits)
qed

lemma demo_main_exists:
  "fs_exists (cwd env) (fs demo_deployed) ''/deploy/app.py''"
  by (simp add: fs_exists_def demo_deployed_def demo_fs_deployed_def path_eval)

lemma demo_run_paths:
  "''/deploy/app.py'' = path_join (case cfg_directory demo_config of None \<Rightarrow> DEFAULT_APP_DIR env | Some d \<Rightarrow> d)
                               (case cfg_main demo_config of None \<Rightarrow> ''main.py'' | Some m \<Rightarrow> m)"
  "[''python3'', ''-u'', ''/deploy/app.py'', ''--x'']
     = [''python3'', ''-u'', ''/deploy/app.py''] @ (case cfg_args demo_config of None \<Rightarrow> [] | Some a \<Rightarrow> a)"
  by (simp_all add: demo_config_def path_join_def startswith_def endswith_def)

section \<open>Facts about the filesystem and the extraction\<close>

lemma wf_parent: "wf_fs f \<Longrightarrow> f (zs @ [z]) = Some n \<Longrightarrow> f zs = Some Dir"
proof -
  assume w: "wf_fs f" and a: "f (zs @ [z]) = Some n"
  from w have "\<And>q n. f q = Some n \<Longrightarrow> q \<noteq> [] \<Longrightarrow> f (butlast q) = Some Dir"
    by (simp add: wf_fs_def)
  from this[OF a] show ?thesis by simp
qed

lemma wf_below_aux: "wf_fs f \<Longrightarrow> f r \<noteq> Some Dir \<Longrightarrow> zs \<noteq> [] \<Longrightarrow> f (r @ zs) = None"
proof (induction zs rule: rev_induct)
  case Nil
  then show ?case by simp
next
  case (snoc z zs)
  show ?case
  proof (cases "f (r @ zs @ [z])")
    case None
    then show ?thesis .
  next
    case (Some n)
    then have "f ((r @ zs) @ [z]) = Some n" by simp
    then have d: "f (r @ zs) = Some Dir" by (rule wf_parent[OF snoc(2)])
    show ?thesis
    proof (cases "zs = []")
      case True
      then show ?thesis using d snoc(3) by simp
    next
      case False
      have "f (r @ zs) = None" by (rule snoc(1)[OF snoc(2,3) False])
      then show ?thesis using d by simp
    qed
  qed
qed

lemma wf_below: "wf_fs f \<Longrightarrow> f r \<noteq> Some Dir \<Longrightarrow> strict_prefix r q \<Longrightarrow> f q = None"
proof -
  assume a: "wf_fs f" "f r \<noteq> Some Dir" "strict_prefix r q"
  from a(3) obtain zs where z: "q = r @ zs" "zs \<noteq> []"
    unfolding strict_prefix_def prefix_def by auto
  show ?thesis unfolding z(1) by (rule wf_below_aux[OF a(1,2) z(2)])
qed

lemma wf_above: "wf_fs f \<Longrightarrow> f q \<noteq> None \<Longrightarrow> strict_prefix p q \<Longrightarrow> f p = Some Dir"
proof (rule ccontr)
  assume w: "wf_fs f" and q: "f q \<noteq> None" and p: "strict_prefix p q" and n: "f p \<noteq> Some Dir"
  have "f q = None" by (rule wf_below[OF w n p])
  then show False using q by simp
qed

lemma below_from_mono: "below_from r A f \<Longrightarrow> A \<subseteq> B \<Longrightarrow> below_from r B f"
  by (auto simp: below_from_def)

lemma makedirs_result:
  "fs_makedirs cw f p = Inr f1 \<Longrightarrow> f1 = (\<lambda>q. if prefix q (resolve cw p) then Some Dir else f q)"
  unfolding fs_makedirs_def Let_def by (simp split: if_splits)

lemma makedirs_paths:
  "fs_makedirs cw f p = Inr f1 \<Longrightarrow> f1 q \<noteq> None \<Longrightarrow> f q \<noteq> None \<or> prefix q (resolve cw p)"
  by (drule makedirs_result) (simp split: if_splits)

lemma open_paths:
  "fs_open t cw f p = Inr f1 \<Longrightarrow> f1 q \<noteq> None \<Longrightarrow> f q \<noteq> None \<or> q = resolve cw p"
  unfolding fs_open_def Let_def by (auto split: if_splits option.splits node.splits)

lemma write_paths: "fs_write f r d q \<noteq> None \<Longrightarrow> f q \<noteq> None"
  unfolding fs_write_def by (auto split: option.splits node.splits if_splits)


lemma extract_member_paths:
  assumes "extract_member cw target m f = (x, f1)" "f1 q \<noteq> None"
  shows "f q \<noteq> None \<or> q \<in> member_paths cw target m"
proof (cases m)
  case (MDir name)
  show ?thesis
  proof (cases "fs_makedirs cw f (path_join target name)")
    case (Inl e)
    then show ?thesis using assms MDir by (simp add: extract_member_def)
  next
    case (Inr f2)
    then have "f1 = f2" using assms MDir by (simp add: extract_member_def)
    then show ?thesis using makedirs_paths[OF Inr, of q] assms(2) MDir by auto
  qed
next
  case (MFile name data)
  let ?dest = "path_join target name"
  show ?thesis
  proof (cases "fs_makedirs cw f (dirname ?dest)")
    case (Inl e)
    then show ?thesis using assms MFile by (simp add: extract_member_def Let_def)
  next
    case (Inr f2)
    note mk = makedirs_paths[OF Inr, of q]
    show ?thesis
    proof (cases "fs_open True cw f2 ?dest")
      case (Inl e)
      then show ?thesis using assms MFile Inr mk by (auto simp: extract_member_def Let_def)
    next
      case (Inr f3)
      have "f1 = fs_write f3 (resolve cw ?dest) data"
        using assms(1) MFile \<open>fs_makedirs cw f (dirname ?dest) = Inr f2\<close> Inr
        by (simp add: extract_member_def Let_def)
      then have "f3 q \<noteq> None" using assms(2) write_paths by blast
      then have "f2 q \<noteq> None \<or> q = resolve cw ?dest" using open_paths[OF Inr] by blast
      then show ?thesis using mk MFile by auto
    qed
  qed
qed

lemma extractall_paths:
  "extractall cw target ms f = (x, f1) \<Longrightarrow> f1 q \<noteq> None \<Longrightarrow>
   f q \<noteq> None \<or> q \<in> (\<Union>m \<in> set ms. member_paths cw target m)"
proof (induction ms arbitrary: f)
  case Nil
  then show ?case by simp
next
  case (Cons m ms)
  obtain y f2 where em: "extract_member cw target m f = (y, f2)" by (cases "extract_member cw target m f")
  show ?case
  proof (cases y)
    case (Some e)
    then have "f1 = f2" using Cons(2) em by simp
    then show ?thesis using extract_member_paths[OF em, of q] Cons(3) by auto
  next
    case None
    then have "extractall cw target ms f2 = (x, f1)" using Cons(2) em by simp
    from Cons(1)[OF this Cons(3)] show ?thesis using extract_member_paths[OF em, of q] by auto
  qed
qed

lemma archive_members_sub:
  assumes "\<And>c. f2 (resolve (cwd env) ap) = Some (File c) \<Longrightarrow> f0 (resolve (cwd env) ap) = Some (File c)"
  shows "archive_members env f2 ap = archive_members env f0 ap \<or> archive_members env f2 ap = []"
proof (cases "f2 (resolve (cwd env) ap)")
  case None
  then show ?thesis by (simp add: archive_members_def)
next
  case (Some n)
  show ?thesis
  proof (cases n)
    case (File c)
    then show ?thesis using Some assms[of c] by (simp add: archive_members_def)
  next
    case Dir
    then show ?thesis using Some by (simp add: archive_members_def)
  qed
qed

lemma untar_to_below:
  assumes nb: "\<And>q. strict_prefix r q \<Longrightarrow> f2 q = None"
    and u: "untar_to env ap target f2 = (x, f3)"
  shows "below_from r (\<Union>m \<in> set (archive_members env f2 ap). member_paths (cwd env) target m) f3"
proof -
  have same: "f3 = f2 \<Longrightarrow> ?thesis"
  proof -
    assume e: "f3 = f2"
    show ?thesis unfolding below_from_def e
    proof (intro allI impI)
      fix q assume q: "strict_prefix r q \<and> f2 q \<noteq> None"
      then have "f2 q = None" using nb by blast
      then show "q \<in> (\<Union>m \<in> set (archive_members env f2 ap). member_paths (cwd env) target m)"
        using q by simp
    qed
  qed
  show ?thesis
  proof (cases "ap = []")
    case True
    then show ?thesis using u same by (simp add: untar_to_def)
  next
    case ne: False
    show ?thesis
    proof (cases "f2 (resolve (cwd env) ap)")
      case None
      then show ?thesis using u same ne by (simp add: untar_to_def)
    next
      case (Some n)
      show ?thesis
      proof (cases n)
        case Dir
        then show ?thesis using u same ne Some by (simp add: untar_to_def)
      next
        case (File c)
        show ?thesis
        proof (cases "untar env c")
          case (Inl e)
          then show ?thesis using u same ne Some File by (simp add: untar_to_def)
        next
          case (Inr ms)
          then have ex: "extractall (cwd env) target ms f2 = (x, f3)"
            using u ne Some File by (simp add: untar_to_def)
          have am: "archive_members env f2 ap = ms" using Some File Inr by (simp add: archive_members_def)
          show ?thesis
            unfolding am below_from_def
          proof (intro allI impI)
            fix q assume q: "strict_prefix r q \<and> f3 q \<noteq> None"
            then have "f2 q = None" using nb by blast
            then show "q \<in> (\<Union>m \<in> set ms. member_paths (cwd env) target m)"
              using extractall_paths[OF ex, of q] q by blast
          qed
        qed
      qed
    qed
  qed
qed

lemma below_from_members:
  assumes nb: "\<And>q. strict_prefix r q \<Longrightarrow> f2 q = None"
    and u: "untar_to env ap target f2 = (x, f3)"
    and pres: "\<And>c. f2 (resolve (cwd env) ap) = Some (File c) \<Longrightarrow> f0 (resolve (cwd env) ap) = Some (File c)"
  shows "below_from r (\<Union>m \<in> set (archive_members env f0 ap). member_paths (cwd env) target m) f3"
proof -
  note b = untar_to_below[OF nb u]
  from archive_members_sub[of f2 env ap f0, OF pres] show ?thesis
  proof
    assume "archive_members env f2 ap = archive_members env f0 ap"
    then show ?thesis using b by simp
  next
    assume "archive_members env f2 ap = []"
    then have "below_from r {} f3" using b by simp
    then show ?thesis by (rule below_from_mono) simp
  qed
qed

lemma makedirs_below:
  assumes "fs_makedirs cw f p = Inr f2" "strict_prefix (resolve cw p) q"
  shows "f2 q = f q"
proof -
  have "\<not> prefix q (resolve cw p)" using assms(2) by (auto simp: strict_prefix_def)
  then show ?thesis using makedirs_result[OF assms(1)] by simp
qed

lemma makedirs_pres:
  assumes "fs_makedirs cw f p = Inr f2" "f2 q = Some (File c)"
  shows "f q = Some (File c)"
  using makedirs_result[OF assms(1)] assms(2) by (simp split: if_splits)

lemma makedirs_after_rmtree:
  assumes wf: "wf_fs f" and d: "f (resolve cw p) = Some Dir" and ne: "p \<noteq> []"
  shows "\<exists>f2. fs_makedirs cw (\<lambda>q. if prefix (resolve cw p) q then None else f q) p = Inr f2"
proof -
  let ?r = "resolve cw p"
  let ?f1 = "\<lambda>q. if prefix ?r q then None else f q"
  have a: "\<not> (\<exists>q \<in> set (prefixes ?r). q \<noteq> ?r \<and> is_file (?f1 q))"
  proof
    assume "\<exists>q \<in> set (prefixes ?r). q \<noteq> ?r \<and> is_file (?f1 q)"
    then obtain q where q: "prefix q ?r" "q \<noteq> ?r" "is_file (?f1 q)" by (auto simp: in_set_prefixes)
    then have sp: "strict_prefix q ?r" by (simp add: strict_prefix_def)
    have "f ?r \<noteq> None" using d by simp
    from wf_above[OF wf this sp] have "f q = Some Dir" .
    moreover have "\<not> prefix ?r q" using sp by (auto simp: strict_prefix_def)
    ultimately show False using q(3) by simp
  qed
  have b: "\<not> is_file (?f1 ?r)" by simp
  show ?thesis unfolding fs_makedirs_def Let_def using a b ne by simp
qed


lemma rmtree_file:
  "p \<noteq> [] \<Longrightarrow> f (resolve cw p) = Some (File d) \<Longrightarrow>
   fs_rmtree faults rf cw f p = (Some (NotADirectoryError p), f)"
  by (simp add: fs_rmtree_def)

lemma rmtree_missing:
  "f (resolve cw p) = None \<Longrightarrow> fs_rmtree faults rf cw f p = (Some (FileNotFoundError p), f)"
  by (simp add: fs_rmtree_def Let_def)

lemma rmtree_root:
  "p \<noteq> [] \<Longrightarrow> resolve cw p = [] \<Longrightarrow> f [] = Some Dir \<Longrightarrow>
   fs_rmtree faults rf cw f p =
     (Some (fst rf), (\<lambda>q. if strict_prefix [] q \<and> \<not> snd rf q then None else f q))"
  by (cases rf) (simp add: fs_rmtree_def)

lemma rmtree_fault:
  "p \<noteq> [] \<Longrightarrow> resolve cw p \<noteq> [] \<Longrightarrow> f (resolve cw p) = Some Dir \<Longrightarrow>
   faults (resolve cw p) = Some (e, kept) \<Longrightarrow>
   fs_rmtree faults rf cw f p =
     (Some e, (\<lambda>q. if strict_prefix (resolve cw p) q \<and> \<not> kept q then None else f q))"
  by (simp add: fs_rmtree_def)

lemma rmtree_dir:
  "p \<noteq> [] \<Longrightarrow> resolve cw p \<noteq> [] \<Longrightarrow> f (resolve cw p) = Some Dir \<Longrightarrow>
   faults (resolve cw p) = None \<Longrightarrow>
   fs_rmtree faults rf cw f p = (None, (\<lambda>q. if prefix (resolve cw p) q then None else f q))"
  by (simp add: fs_rmtree_def)

lemma rmtree_ok:
  assumes "fs_rmtree faults rf cw f p = (None, f1)"
  shows "p \<noteq> [] \<and> resolve cw p \<noteq> [] \<and> f (resolve cw p) = Some Dir
         \<and> f1 = (\<lambda>q. if prefix (resolve cw p) q then None else f q)"
  using assms unfolding fs_rmtree_def Let_def
  by (auto split: if_splits option.splits node.splits prod.splits)

lemma extract_not_refused:
  assumes "\<not> (fs_exists (cwd env) (fs st) target \<and> abspath (cwd env) target \<in> set [''/'', []])"
  shows "extract_archive_to env archive_path target st =
     (case (if fs_exists (cwd env) (fs st) target
               then (case fs_rmtree (rmtree_fault env) (rmtree_root env) (cwd env) (fs st) target of
                       (x, fs1) \<Rightarrow> (x, (emit (Rmtree target) st)\<lparr>fs := fs1\<rparr>))
               else (None, st)) of
           (Some e, st1) \<Rightarrow> ((False, Some (exn_str e)), st1)
         | (None, st1) \<Rightarrow>
             (case fs_makedirs (cwd env) (fs st1) target of
                Inl e \<Rightarrow> ((False, Some (exn_str e)), emit (Makedirs target) st1)
              | Inr fs2 \<Rightarrow>
                  (case untar_to env archive_path target fs2 of
                     (Some e, fs3) \<Rightarrow>
                       ((False, Some (exn_str e)),
                        (emit (Untar archive_path target) (emit (Makedirs target) st1))\<lparr>fs := fs3\<rparr>)
                   | (None, fs3) \<Rightarrow>
                       ((True, None),
                        (emit (Untar archive_path target) (emit (Makedirs target) st1))\<lparr>fs := fs3\<rparr>))))"
  using assms unfolding extract_archive_to_def by (simp only: if_False)

lemma extract_refused:
  assumes "fs_exists (cwd env) (fs st) target \<and> abspath (cwd env) target \<in> set [''/'', []]"
  shows "extract_archive_to env archive_path target st =
           ((False, Some ''DANGEROUS_PATH''),
            log env (''Refusing to remove dangerous path: '' @ target) st)"
  using assms unfolding extract_archive_to_def by simp

lemma extract_empty_target:
  "extract_archive_to env archive_path [] st =
     ((False, Some (exn_str (FileNotFoundError []))), emit (Makedirs []) st)"
  by (simp add: extract_archive_to_def fs_exists_def fs_makedirs_def)

text \<open>A call on a path of the root that the safety check lets through.\<close>

lemma extract_root_alias:
  assumes root: "fs st [] = Some Dir"
    and t: "target \<noteq> []"
    and r: "resolve (cwd env) target = []"
    and a: "abspath (cwd env) target \<notin> set [''/'', []]"
  shows "extract_archive_to env archive_path target st =
           ((False, Some (exn_str (fst (rmtree_root env)))),
            (emit (Rmtree target) st)
              \<lparr>fs := (\<lambda>q. if strict_prefix [] q \<and> \<not> snd (rmtree_root env) q then None else fs st q)\<rparr>)"
proof -
  have nr: "\<not> (fs_exists (cwd env) (fs st) target \<and> abspath (cwd env) target \<in> set [''/'', []])"
    using a by simp
  have ye: "fs_exists (cwd env) (fs st) target" using t r root by (simp add: fs_exists_def)
  show ?thesis
    unfolding extract_not_refused[OF nr]
    using ye rmtree_root[where p=target and cw="cwd env" and f="fs st" and faults="rmtree_fault env"
                           and rf="rmtree_root env", OF t r root] by simp
qed

text \<open>A call in which the removal of the target fails.\<close>

lemma extract_fault:
  assumes t: "target \<noteq> []"
    and r: "resolve (cwd env) target \<noteq> []"
    and d: "fs st (resolve (cwd env) target) = Some Dir"
    and f: "rmtree_fault env (resolve (cwd env) target) = Some (e, kept)"
    and a: "abspath (cwd env) target \<notin> set [''/'', []]"
  shows "extract_archive_to env archive_path target st =
           ((False, Some (exn_str e)),
            (emit (Rmtree target) st)
              \<lparr>fs := (\<lambda>q. if strict_prefix (resolve (cwd env) target) q \<and> \<not> kept q then None
                           else fs st q)\<rparr>)"
proof -
  have nr: "\<not> (fs_exists (cwd env) (fs st) target \<and> abspath (cwd env) target \<in> set [''/'', []])"
    using a by simp
  have ye: "fs_exists (cwd env) (fs st) target" using t d by (simp add: fs_exists_def)
  show ?thesis
    unfolding extract_not_refused[OF nr]
    using ye rmtree_fault[where p=target and cw="cwd env" and f="fs st" and faults="rmtree_fault env"
                           and rf="rmtree_root env" and e=e and kept=kept, OF t r d f] by simp
qed

text \<open>The shape of a call that succeeds.\<close>

lemma extract_success:
  assumes wf: "wf_fs (fs st)"
    and ex: "extract_archive_to env archive_path target st = ((True, e), st')"
  shows "\<exists>f1 f2 tr.
           (f1 = fs st \<and> fs st (resolve (cwd env) target) = None \<and> tr = trace st
            \<or> f1 = (\<lambda>q. if prefix (resolve (cwd env) target) q then None else fs st q)
              \<and> fs st (resolve (cwd env) target) = Some Dir \<and> tr = trace st @ [Rmtree target])
           \<and> target \<noteq> [] \<and> resolve (cwd env) target \<noteq> []
           \<and> fs_makedirs (cwd env) f1 target = Inr f2
           \<and> untar_to env archive_path target f2 = (None, fs st')
           \<and> trace st' = tr @ [Makedirs target, Untar archive_path target]"
proof -
  let ?r = "resolve (cwd env) target"
  have nr: "\<not> (fs_exists (cwd env) (fs st) target \<and> abspath (cwd env) target \<in> set [''/'', []])"
    using ex extract_refused[of env st target archive_path] by auto
  have t: "target \<noteq> []" using ex by (auto simp: extract_empty_target)
  note e = ex[unfolded extract_not_refused[OF nr]]
  show ?thesis
  proof (cases "fs_exists (cwd env) (fs st) target")
    case False
    then have n: "fs st ?r = None" using t by (simp add: fs_exists_def)
    have rn: "?r \<noteq> []" using n wf by (auto simp: wf_fs_def)
    from e False obtain f2 where m: "fs_makedirs (cwd env) (fs st) target = Inr f2"
      by (cases "fs_makedirs (cwd env) (fs st) target") auto
    obtain x f3 where u: "untar_to env archive_path target f2 = (x, f3)"
      by (cases "untar_to env archive_path target f2")
    from e False m u have "x = None \<and> f3 = fs st'
        \<and> trace st' = trace st @ [Makedirs target, Untar archive_path target]"
      by (cases x) auto
    with n m u t rn show ?thesis by auto
  next
    case True
    obtain x f1 where rm: "fs_rmtree (rmtree_fault env) (rmtree_root env) (cwd env) (fs st) target = (x, f1)"
      by (cases "fs_rmtree (rmtree_fault env) (rmtree_root env) (cwd env) (fs st) target")
    from e True rm have x: "x = None" by (cases x) auto
    note ok = rmtree_ok[OF rm[unfolded x]]
    from e True rm x obtain f2 where m: "fs_makedirs (cwd env) f1 target = Inr f2"
      by (cases "fs_makedirs (cwd env) f1 target") auto
    obtain y f3 where u: "untar_to env archive_path target f2 = (y, f3)"
      by (cases "untar_to env archive_path target f2")
    from e True rm x m u have "y = None \<and> f3 = fs st'
        \<and> trace st' = trace st @ [Rmtree target, Makedirs target, Untar archive_path target]"
      by (cases y) auto
    with ok m u show ?thesis by auto
  qed
qed

text \<open>What unpacking keeps and what it leaves.\<close>

lemma extract_member_keeps:
  assumes x: "extract_member cw target m f = (None, f1)"
    and p: "f p = Some n"
    and d: "p \<noteq> member_dest cw target m \<or> n = Dir"
  shows "f1 p = Some n"
proof (cases m)
  case (MDir name)
  from x MDir obtain g where g: "fs_makedirs cw f (path_join target name) = Inr g" and f1: "f1 = g"
    by (auto simp: extract_member_def split: sum.splits)
  have nf: "prefix p (resolve cw (path_join target name)) \<Longrightarrow> \<not> is_file (f p)"
    using g unfolding fs_makedirs_def Let_def
    by (cases "p = resolve cw (path_join target name)") (auto simp: in_set_prefixes split: if_splits)
  show ?thesis
  proof (cases "prefix p (resolve cw (path_join target name))")
    case True
    from nf[OF True] p have "n = Dir" by (cases n) auto
    then show ?thesis unfolding f1 makedirs_result[OF g] using True by simp
  next
    case False
    then show ?thesis unfolding f1 makedirs_result[OF g] using p by simp
  qed
next
  case (MFile name data)
  let ?dest = "path_join target name"
  from x MFile obtain g h where g: "fs_makedirs cw f (dirname ?dest) = Inr g"
    and h: "fs_open True cw g ?dest = Inr h"
    and f1: "f1 = fs_write h (resolve cw ?dest) data"
    by (auto simp: extract_member_def Let_def split: sum.splits)
  have nf: "prefix p (resolve cw (dirname ?dest)) \<Longrightarrow> \<not> is_file (f p)"
    using g unfolding fs_makedirs_def Let_def
    by (cases "p = resolve cw (dirname ?dest)") (auto simp: in_set_prefixes split: if_splits)
  have gp: "g p = Some n"
  proof (cases "prefix p (resolve cw (dirname ?dest))")
    case True
    from nf[OF True] p have "n = Dir" by (cases n) auto
    then show ?thesis unfolding makedirs_result[OF g] using True by simp
  next
    case False
    then show ?thesis unfolding makedirs_result[OF g] using p by simp
  qed
  have ne: "p \<noteq> resolve cw ?dest"
  proof
    assume eq: "p = resolve cw ?dest"
    with d MFile have "n = Dir" by simp
    with gp eq have "g (resolve cw ?dest) = Some Dir" by simp
    with h show False by (simp add: fs_open_def Let_def split: if_splits)
  qed
  show ?thesis unfolding f1 using fs_write_other[OF ne] fs_open_other[OF h ne] gp by simp
qed

lemma extract_member_at:
  assumes x: "extract_member cw target m f = (None, f1)"
  shows "f1 (member_dest cw target m) = Some (member_node m)"
proof (cases m)
  case (MDir name)
  from x MDir obtain g where g: "fs_makedirs cw f (path_join target name) = Inr g" and f1: "f1 = g"
    by (auto simp: extract_member_def split: sum.splits)
  show ?thesis unfolding f1 makedirs_result[OF g] MDir by simp
next
  case (MFile name data)
  let ?dest = "path_join target name"
  from x MFile obtain g h where g: "fs_makedirs cw f (dirname ?dest) = Inr g"
    and h: "fs_open True cw g ?dest = Inr h"
    and f1: "f1 = fs_write h (resolve cw ?dest) data"
    by (auto simp: extract_member_def Let_def split: sum.splits)
  from fs_write_at[of h "resolve cw ?dest" "[]" data, OF fs_open_trunc_at[OF h]]
  show ?thesis unfolding f1 MFile by simp
qed

lemma extractall_keeps:
  "extractall cw target ms f = (None, f1) \<Longrightarrow> f p = Some n \<Longrightarrow>
   p \<notin> member_dest cw target ` set ms \<or> n = Dir \<Longrightarrow> f1 p = Some n"
proof (induction ms arbitrary: f)
  case Nil
  then show ?case by simp
next
  case (Cons m ms)
  obtain x g where xg: "extract_member cw target m f = (x, g)" by (cases "extract_member cw target m f")
  from Cons.prems(1) xg have x: "x = None" and r: "extractall cw target ms g = (None, f1)"
    by (cases x; simp)+
  have "g p = Some n"
    by (rule extract_member_keeps[OF xg[unfolded x] Cons.prems(2)]) (use Cons.prems(3) in auto)
  then show ?case
    by (rule Cons.IH[OF r]) (use Cons.prems(3) in auto)
qed

lemma unpacked_None: "unpacked cw target ms p = None \<longleftrightarrow> p \<notin> member_dest cw target ` set ms"
  by (induction ms) (auto split: option.splits)

lemma extractall_unpacked:
  "extractall cw target ms f = (None, f1) \<Longrightarrow> unpacked cw target ms p = Some n \<Longrightarrow> f1 p = Some n"
proof (induction ms arbitrary: f)
  case Nil
  then show ?case by simp
next
  case (Cons m ms)
  obtain x g where xg: "extract_member cw target m f = (x, g)" by (cases "extract_member cw target m f")
  from Cons.prems(1) xg have x: "x = None" and r: "extractall cw target ms g = (None, f1)"
    by (cases x; simp)+
  show ?case
  proof (cases "unpacked cw target ms p")
    case (Some n')
    then have "n' = n" using Cons.prems(2) by simp
    then show ?thesis using Cons.IH[OF r] Some by simp
  next
    case None
    then have pn: "p = member_dest cw target m" "n = member_node m"
      using Cons.prems(2) by (auto split: if_splits)
    have "g p = Some n" unfolding pn by (rule extract_member_at[OF xg[unfolded x]])
    moreover have "p \<notin> member_dest cw target ` set ms" using None by (simp add: unpacked_None)
    ultimately show ?thesis using extractall_keeps[OF r] by blast
  qed
qed

lemma untar_to_ok:
  assumes "untar_to env ap target f2 = (None, f3)"
  shows "extractall (cwd env) target (archive_members env f2 ap) f2 = (None, f3)
         \<and> (\<exists>c. f2 (resolve (cwd env) ap) = Some (File c))"
  using assms unfolding untar_to_def archive_members_def
  by (auto split: if_splits option.splits node.splits sum.splits)

lemma demo_staged_wf: "wf_fs demo_fs_staged"
  unfolding wf_fs_def demo_fs_staged_def
  by (auto split: if_splits)

lemma demo_extract_ok:
  "fst (fst (extract_archive_to demo_env_tar (ARCHIVE_PATH demo_env_tar) ''/deploy'' demo_staged))"
proof -
  have r: "resolve ''/home/pi'' ''/deploy'' = [''deploy'']"
    and a: "abspath ''/home/pi'' ''/deploy'' = ''/deploy''"
    and ar: "resolve ''/home/pi'' (path_join ''/home/pi/app'' ''__upload__.tar.gz'')
              = [''home'', ''pi'', ''app'', ''__upload__.tar.gz'']"
    and p1: "resolve ''/home/pi'' (path_join ''/deploy'' ''app.py'') = [''deploy'', ''app.py'']"
    and p2: "resolve ''/home/pi'' (path_join ''/deploy'' ''lib'') = [''deploy'', ''lib'']"
    and p3: "resolve ''/home/pi'' (path_join ''/deploy'' ''lib/util.py'') = [''deploy'', ''lib'', ''util.py'']"
    and p4: "resolve ''/home/pi'' (dirname (path_join ''/deploy'' ''app.py'')) = [''deploy'']"
    and p5: "resolve ''/home/pi'' (dirname (path_join ''/deploy'' ''lib/util.py'')) = [''deploy'', ''lib'']"
    and n1: "path_join ''/deploy'' ''app.py'' \<noteq> []" "path_join ''/deploy'' ''lib'' \<noteq> []"
            "path_join ''/deploy'' ''lib/util.py'' \<noteq> []"
            "dirname (path_join ''/deploy'' ''app.py'') \<noteq> []"
            "dirname (path_join ''/deploy'' ''lib/util.py'') \<noteq> []"
            "path_join ''/home/pi/app'' ''__upload__.tar.gz'' \<noteq> []"
    by (simp_all add: path_eval)
  show ?thesis
    by (simp add: extract_archive_to_def fs_exists_def fs_rmtree_def fs_makedirs_def untar_to_def
      extract_member_def fs_open_def fs_write_def Let_def ARCHIVE_PATH_def
      demo_env_tar_def demo_env_def demo_staged_def demo_fs_staged_def
      r a ar p1 p2 p3 p4 p5 n1)
qed


lemma demo_unpacked:
  "unpacked (cwd demo_env_tar) ''/deploy''
     (archive_members demo_env_tar (fs demo_staged) (ARCHIVE_PATH demo_env_tar)) [''deploy'', ''app.py'']
     = Some (File ''print(2)'')"
  "unpacked (cwd demo_env_tar) ''/deploy''
     (archive_members demo_env_tar (fs demo_staged) (ARCHIVE_PATH demo_env_tar)) [''deploy'', ''lib'', ''util.py'']
     = Some (File ''x = 1'')"
  "[''deploy'', ''old.txt''] \<notin>
     (\<Union>m \<in> set (archive_members demo_env_tar (fs demo_staged) (ARCHIVE_PATH demo_env_tar)).
         member_paths (cwd demo_env_tar) ''/deploy'' m)"
proof -
  have ar: "resolve (cwd demo_env_tar) (ARCHIVE_PATH demo_env_tar) = [''home'', ''pi'', ''app'', ''__upload__.tar.gz'']"
    by (simp add: demo_env_tar_def demo_env_def ARCHIVE_PATH_def path_eval)
  have ms: "archive_members demo_env_tar (fs demo_staged) (ARCHIVE_PATH demo_env_tar)
     = [MFile ''app.py'' ''print(2)'', MDir ''lib'', MFile ''lib/util.py'' ''x = 1'']"
    unfolding archive_members_def ar by (simp add: demo_staged_def demo_fs_staged_def demo_env_tar_def)
  have p: "resolve (cwd demo_env_tar) (path_join ''/deploy'' ''app.py'') = [''deploy'', ''app.py'']"
    "resolve (cwd demo_env_tar) (path_join ''/deploy'' ''lib'') = [''deploy'', ''lib'']"
    "resolve (cwd demo_env_tar) (path_join ''/deploy'' ''lib/util.py'') = [''deploy'', ''lib'', ''util.py'']"
    "resolve (cwd demo_env_tar) (dirname (path_join ''/deploy'' ''app.py'')) = [''deploy'']"
    "resolve (cwd demo_env_tar) (dirname (path_join ''/deploy'' ''lib/util.py'')) = [''deploy'', ''lib'']"
    by (simp_all add: demo_env_tar_def demo_env_def path_eval)
  show "unpacked (cwd demo_env_tar) ''/deploy''
     (archive_members demo_env_tar (fs demo_staged) (ARCHIVE_PATH demo_env_tar)) [''deploy'', ''app.py'']
     = Some (File ''print(2)'')"
    unfolding ms by (simp add: p)
  show "unpacked (cwd demo_env_tar) ''/deploy''
     (archive_members demo_env_tar (fs demo_staged) (ARCHIVE_PATH demo_env_tar)) [''deploy'', ''lib'', ''util.py'']
     = Some (File ''x = 1'')"
    unfolding ms by (simp add: p)
  show "[''deploy'', ''old.txt''] \<notin>
     (\<Union>m \<in> set (archive_members demo_env_tar (fs demo_staged) (ARCHIVE_PATH demo_env_tar)).
         member_paths (cwd demo_env_tar) ''/deploy'' m)"
    unfolding ms by (simp add: p)
qed

lemma demo_double_slash:
  "abspath (cwd demo_env_tar) ''//'' = ''//''" "resolve (cwd demo_env_tar) ''//'' = []"
  by (simp_all add: demo_env_tar_def demo_env_def path_eval numeral_2_eq_2)

section \<open>The members of the archive\<close>

lemma archive_names_snoc:
  "archive_names (tf @ [(rel, content)]) = insert rel (archive_names tf)"
  by (simp add: archive_names_def)

lemma add_files_names:
  "archive_names (add_files fnmatch inc exc out_rel files tf) =
     archive_names tf \<union>
     {rel. rel \<in> fst ` set files \<and> out_rel \<noteq> Some rel
           \<and> (rel = ''config.json''
                \<or> should_include fnmatch rel inc \<and> \<not> should_exclude fnmatch rel exc)}"
proof (induction files arbitrary: tf)
  case Nil
  then show ?case by simp
next
  case (Cons a files)
  obtain rel content where a: "a = (rel, content)" by (cases a)
  show ?case
    unfolding a by (auto simp: Cons.IH tf_add_def archive_names_snoc)
qed

lemma should_include_iff: "should_include fnmatch rel pats \<longleftrightarrow> list_ex (fnmatch rel) pats"
  by (induction pats) simp_all

lemma should_exclude_iff: "should_exclude fnmatch rel pats \<longleftrightarrow> list_ex (fnmatch rel) pats"
  by (induction pats) simp_all


section \<open>The acknowledgement waits of the controller\<close>

lemma readline_nonempty:
  "ctl_readline st = (line, st1) \<Longrightarrow> line \<noteq> [] \<Longrightarrow> \<exists>dt. pending st = (line, dt) # pending st1"
  by (auto simp: ctl_readline_def split: list.splits)

lemma readline_pending:
  "ctl_readline st = (line, st1) \<Longrightarrow> pending st1 = tl (pending st)"
  by (auto simp: ctl_readline_def split: list.splits)

lemma list_ex_tl: "list_ex P (tl xs) \<Longrightarrow> list_ex P xs"
  by (cases xs) auto

lemma wait_ack_outcome:
  "wait_ack dec expected timeout_reason t0 st = (r, st') \<Longrightarrow>
     (r = Acked \<and> list_ex (replies dec expected) (pending st))
     \<or> (\<exists>tok. r = Failed tok \<and> startswith tok ''ERR'' \<and> list_ex (replies dec tok) (pending st))
     \<or> (r = Failed timeout_reason \<and> clock st' - t0 > 10)"
proof (induction dec expected timeout_reason t0 st rule: wait_ack.induct)
  case (1 dec expected timeout_reason t0 st)
  obtain line st1 where rl: "ctl_readline st = (line, st1)" by (cases "ctl_readline st")
  note eq = "1.prems"[unfolded wait_ack.simps[of dec expected timeout_reason t0 st] rl prod.case]
  show ?case
  proof (cases "line \<noteq> [] \<and> response dec line = expected")
    case True
    with readline_nonempty[OF rl] obtain dt where "pending st = (line, dt) # pending st1" by blast
    then show ?thesis using True eq by auto
  next
    case ne: False
    show ?thesis
    proof (cases "line \<noteq> [] \<and> startswith (response dec line) ''ERR''")
      case True
      with readline_nonempty[OF rl] obtain dt where "pending st = (line, dt) # pending st1" by blast
      then show ?thesis using True ne eq by auto
    next
      case nerr: False
      show ?thesis
      proof (cases "clock st1 - t0 > 10")
        case True
        then show ?thesis using ne nerr eq by auto
      next
        case False
        then have "wait_ack dec expected timeout_reason t0 st1 = (r, st')"
          using ne nerr eq by (auto split: if_splits)
        from "1.IH"[OF rl[symmetric] ne nerr False this]
        show ?thesis using list_ex_tl[of _ "pending st"] readline_pending[OF rl] by auto
      qed
    qed
  qed
qed

lemma wait_done_returns:
  "list_ex (final_reply dec) (pending st) \<Longrightarrow> \<exists>r. wait_done dec st = Some r"
proof (induction "pending st" arbitrary: st)
  case Nil
  then show ?case by simp
next
  case (Cons a rest)
  obtain line dt where a: "a = (line, dt)" by (cases a)
  let ?st1 = "st\<lparr>pending := rest, clock := clock st + dt\<rparr>"
  have rl: "ctl_readline st = (line, ?st1)"
    using Cons(2)[symmetric] a by (simp add: ctl_readline_def)
  show ?case
  proof (cases "line = []")
    case True
    then have "list_ex (final_reply dec) rest" using Cons(3) Cons(2)[symmetric] a by simp
    then have "\<exists>r. wait_done dec (ctl_sleep (1 / 20) ?st1) = Some r"
      by (intro Cons(1)) (simp_all add: ctl_sleep_def)
    then show ?thesis using True by (subst wait_done.simps) (simp add: rl)
  next
    case ne: False
    show ?thesis
    proof (cases "response dec line = ''DONE'' \<or> startswith (response dec line) ''ERR_CHECKSUM''")
      case True
      then show ?thesis using ne by (subst wait_done.simps) (auto simp: rl Let_def)
    next
      case False
      then have "list_ex (final_reply dec) rest" using Cons(3) Cons(2)[symmetric] a by simp
      then have "\<exists>r. wait_done dec ?st1 = Some r"
        by (intro Cons(1)) simp_all
      then show ?thesis using False ne by (subst wait_done.simps) (simp add: rl)
    qed
  qed
qed

lemma wait_done_needs_reply:
  assumes "wait_done dec st = Some r"
  shows "list_ex (final_reply dec) (pending st)"
proof (induct rule: wait_done.raw_induct [OF _ assms])
  case (1 f dec st r)
  obtain line st1 where rl: "ctl_readline st = (line, st1)" by (cases "ctl_readline st")
  note eq = 1(2)[unfolded rl prod.case]
  note tl = readline_pending[OF rl]
  show ?case
  proof (cases "line = []")
    case True
    then have "f dec (ctl_sleep (1 / 20) st1) = Some r" using eq by simp
    from 1(1)[OF this] tl show ?thesis by (auto simp: ctl_sleep_def intro: list_ex_tl)
  next
    case ne: False
    from readline_nonempty[OF rl ne] obtain dt where p: "pending st = (line, dt) # pending st1" by blast
    show ?thesis
    proof (cases "response dec line = ''DONE'' \<or> startswith (response dec line) ''ERR_CHECKSUM''")
      case True
      then show ?thesis using ne p by auto
    next
      case False
      then have "f dec st1 = Some r" using eq ne by simp
      from 1(1)[OF this] show ?thesis using p by simp
    qed
  qed
qed

lemma wait_done_None_iff:
  "wait_done dec st = None \<longleftrightarrow> \<not> list_ex (final_reply dec) (pending st)"
  using wait_done_returns[of dec st] wait_done_needs_reply[of dec st] by (cases "wait_done dec st") auto


lemma wait_ack_hit:
  "pending st = (line, dt) # rest \<Longrightarrow> line \<noteq> [] \<Longrightarrow> response dec line = expected \<Longrightarrow>
   wait_ack dec expected timeout_reason t0 st = (Acked, st\<lparr>pending := rest, clock := clock st + dt\<rparr>)"
  by (subst wait_ack.simps) (simp add: ctl_readline_def)

lemma ctl_write_simps [simp]:
  "pending (ctl_write x st) = pending st" "clock (ctl_write x st) = clock st"
  "sent (ctl_write x st) = sent st @ [x]"
  by (simp_all add: ctl_write_def)

lemma send_chunks_pending [simp]: "pending (send_chunks payload st) = pending st"
proof (induction payload st rule: send_chunks.induct)
  case (1 payload st)
  show ?case
  proof (cases "take 16384 payload = []")
    case True
    then show ?thesis by (subst send_chunks.simps) simp
  next
    case False
    then show ?thesis using 1 by (subst send_chunks.simps) simp
  qed
qed

lemma send_once_blocks:
  assumes p: "pending st = (l1, d1) # (l2, d2) # rest"
    and l1: "l1 \<noteq> []" "response dec l1 = ''OK_CONFIG''"
    and l2: "l2 \<noteq> []" "response dec l2 = ''OK''"
    and n: "\<not> list_ex (final_reply dec) rest"
  shows "send_once dec cfg_bytes sz sha name payload st = None"
proof -
  let ?st1 = "ctl_write cfg_bytes (ctl_write (''CONFIG '' @ py_str (int (length cfg_bytes)) @ nl) st)"
  let ?st2 = "?st1\<lparr>pending := (l2, d2) # rest, clock := clock ?st1 + d1\<rparr>"
  let ?st3 = "ctl_write (''UPLOAD '' @ py_str sz @ '' '' @ sha @ '' '' @ name @ nl) ?st2"
  let ?st4 = "?st3\<lparr>pending := rest, clock := clock ?st3 + d2\<rparr>"
  have a: "wait_ack dec ''OK_CONFIG'' ''TIMEOUT_OK_CONFIG'' (clock ?st1) ?st1 = (Acked, ?st2)"
    by (rule wait_ack_hit[OF _ l1]) (simp add: p)
  have b: "wait_ack dec ''OK'' ''TIMEOUT_OK'' (clock ?st3) ?st3 = (Acked, ?st4)"
    by (rule wait_ack_hit[OF _ l2]) simp
  have c: "wait_done dec (send_chunks payload ?st4) = None"
    unfolding wait_done_None_iff using n by simp
  show ?thesis unfolding send_once_def Let_def a prod.case ack.case b c ..
qed

lemma send_once_agent_silent:
  "send_once Some ''{}'' 3 ''abc'' ''__upload__.tar.gz'' ''xyz''
     (demo_ctl [(''OK_CONFIG'' @ nl, 1 / 10), (''OK'' @ nl, 1 / 10), (''PROGRESS 65536'' @ nl, 1)]) = None"
  by (rule send_once_blocks[where ?l1.0="''OK_CONFIG'' @ nl" and ?l2.0="''OK'' @ nl"
        and rest="[(''PROGRESS 65536'' @ nl, 1)]" and ?d1.0="1 / 10" and ?d2.0="1 / 10"])
     (simp_all add: demo_ctl_def response_def strip_def is_space_def startswith_def nl_def)

section \<open>Claim C4: the payload reads have no deadline\<close>

text \<open>
  Claim C4 says that a payload read of the agent (\<^verbatim>\<open>recv_n\<close> for CONFIG, \<^verbatim>\<open>read_exact\<close> for
  UPLOAD) ends with a timeout failure when the transport stops delivering bytes before the
  declared size is reached. It does not: with two bytes delivered of four declared, and
  silence afterwards, neither read ever returns.
\<close>

theorem payload_read_blocks:
  "recv_n 4 (demo_agent [''ab'']) = None
   \<and> read_exact demo_env 4 (ARCHIVE_PATH demo_env) (Some progress_cb) (demo_agent [''ab'']) = None"
proof
  show "recv_n 4 (demo_agent [''ab'']) = None"
    using recv_n_loop_char[of 4 "[]" "demo_agent [''ab'']"] by (simp add: recv_n_def demo_agent_def)
next
  let ?st0 = "(emit (OpenWrite (ARCHIVE_PATH demo_env)) (demo_agent [''ab'']))
        \<lparr>fs := demo_fs([''home'', ''pi'', ''app'', ''__upload__.tar.gz''] \<mapsto> File [])\<rparr>"
  have "read_exact_loop 4 (resolve (cwd demo_env) (ARCHIVE_PATH demo_env)) (Some progress_cb) 0 [] 0 ?st0 = None"
    using read_exact_loop_char[of 4 0 ?st0 _ "[]" 0] by (simp add: demo_agent_def)
  moreover have "fs (demo_agent [''ab'']) = demo_fs" by (simp add: demo_agent_def)
  ultimately show "read_exact demo_env 4 (ARCHIVE_PATH demo_env) (Some progress_cb) (demo_agent [''ab'']) = None"
    by (simp add: read_exact_cases demo_archive_open)
qed

text \<open>
  Claim C4, amended. Only the single reads of the port time out. A payload read polls the
  port, sleeps after every read that brought no bytes, and returns once the declared number
  of bytes has arrived; it never returns exactly when fewer bytes than declared ever arrive
  (for \<^verbatim>\<open>read_exact\<close>: and the archive file could be opened; otherwise the exception of
  \<^verbatim>\<open>open\<close> leaves the function at once). No timeout failure exists.
\<close>

theorem payload_read_returns_iff:
  "(recv_n n st = None \<longleftrightarrow> int (length (concat (rx st))) < n)
   \<and> (read_exact env n p (Some progress_cb) st = None
        \<longleftrightarrow> (\<exists>fs1. fs_open True (cwd env) (fs st) p = Inr fs1) \<and> int (length (concat (rx st))) < n)"
proof
  show "recv_n n st = None \<longleftrightarrow> int (length (concat (rx st))) < n"
    using recv_n_loop_char[of n "[]" st] by (auto simp: recv_n_def)
next
  show "read_exact env n p (Some progress_cb) st = None
        \<longleftrightarrow> (\<exists>fs1. fs_open True (cwd env) (fs st) p = Inr fs1) \<and> int (length (concat (rx st))) < n"
  proof (cases "fs_open True (cwd env) (fs st) p")
    case (Inl e)
    then show ?thesis by (simp add: read_exact_cases)
  next
    case (Inr fs1)
    let ?st0 = "(emit (OpenWrite p) st)\<lparr>fs := fs1\<rparr>"
    have r: "rx ?st0 = rx st" by simp
    show ?thesis
      using read_exact_loop_char[of n 0 ?st0 "resolve (cwd env) p" "[]" 0] Inr
      unfolding r by (auto simp: read_exact_cases)
  qed
qed

section \<open>Claim C10: the progress lines of one payload reception\<close>

text \<open>
  Claim C10. The serial writes of one call of \<^verbatim>\<open>read_exact\<close> with the callback of \<^verbatim>\<open>main\<close>
  are \<^verbatim>\<open>PROGRESS\<close> lines for a list of counts \<open>gs\<close> in which the first count is at least
  65536, every later count is at least 65536 above the one before it (so the counts
  increase strictly), and no count exceeds the declared size \<open>n\<close>.
\<close>

theorem progress_counts_spaced:
  "read_exact env n p (Some progress_cb) st = Some (res, st') \<Longrightarrow>
   \<exists>new gs. trace st' = trace st @ new
     \<and> filter is_tx new = map (\<lambda>g. Tx (''PROGRESS '' @ py_str g @ nl)) gs
     \<and> spaced 0 gs \<and> sorted_wrt (<) gs \<and> (\<forall>g \<in> set gs. g \<le> n)"
proof (cases "fs_open True (cwd env) (fs st) p")
  case (Inl e)
  assume "read_exact env n p (Some progress_cb) st = Some (res, st')"
  then have "trace st' = trace st @ [OpenWrite p]" using Inl by (auto simp: read_exact_cases)
  then show ?thesis
    by (intro exI[of _ "[OpenWrite p]"] exI[of _ "[]"]) simp
next
  case (Inr fs1)
  assume a: "read_exact env n p (Some progress_cb) st = Some (res, st')"
  let ?st0 = "(emit (OpenWrite p) st)\<lparr>fs := fs1\<rparr>"
  let ?r = "resolve (cwd env) p"
  from a Inr obtain got h where l: "read_exact_loop n ?r (Some progress_cb) 0 [] 0 ?st0 = Some (got, h, st')"
    by (auto simp: read_exact_cases split: option.splits)
  then have "n \<le> 0 + int (length (concat (rx ?st0)))"
    using read_exact_loop_char[of n 0 ?st0 ?r "[]" 0] by (cases "n \<le> 0 + int (length (concat (rx ?st0)))") auto
  then obtain st2 new gs where r: "read_exact_loop n ?r (Some progress_cb) 0 [] 0 ?st0
                  = Some (max 0 n, [] @ take (nat (n - 0)) (concat (rx ?st0)), st2)"
      "trace st2 = trace ?st0 @ new"
      "filter is_tx new = map (\<lambda>g. Tx (''PROGRESS '' @ py_str g @ nl)) gs"
      "spaced 0 gs" "\<forall>g \<in> set gs. g \<le> n"
    using read_exact_loop_char[of n 0 ?st0 ?r "[]" 0] by blast
  have "st2 = st'" using l r(1) by simp
  then have "trace st' = trace st @ (OpenWrite p # new)" using r(2) by simp
  moreover have "filter is_tx (OpenWrite p # new) = map (\<lambda>g. Tx (''PROGRESS '' @ py_str g @ nl)) gs"
    using r(3) by simp
  ultimately show ?thesis using r(4,5) spaced_sorted[OF r(4)] by blast
qed


theorem progress_counts_spaced_witness:
  "\<exists>res st'. read_exact demo_env 131072 (ARCHIVE_PATH demo_env) (Some progress_cb)
        (demo_agent (replicate 8 demo_block)) = Some (res, st')
     \<and> filter is_tx (trace st') = [Tx (''PROGRESS 65536'' @ nl), Tx (''PROGRESS 131072'' @ nl)]
     \<and> (\<exists>new gs. trace st' = trace (demo_agent (replicate 8 demo_block)) @ new
           \<and> filter is_tx new = map (\<lambda>g. Tx (''PROGRESS '' @ py_str g @ nl)) gs
           \<and> spaced 0 gs \<and> sorted_wrt (<) gs \<and> (\<forall>g \<in> set gs. g \<le> 131072))"
proof -
  have b: "length demo_block = 16384" by (simp only: demo_block_def length_replicate)
  have r8: "replicate 8 demo_block
      = [demo_block, demo_block, demo_block, demo_block, demo_block, demo_block, demo_block, demo_block]"
    by (simp add: numeral_eq_Suc)
  obtain res st' where r: "read_exact demo_env 131072 (ARCHIVE_PATH demo_env) (Some progress_cb)
        (demo_agent (replicate 8 demo_block)) = Some (res, st')"
      and t: "trace st' = [OpenWrite (ARCHIVE_PATH demo_env),
                   Tx (''PROGRESS 65536'' @ nl), Tx (''PROGRESS 131072'' @ nl)]"
    using demo_big_read[OF b] unfolding r8 by blast
  show ?thesis
    using progress_counts_spaced[OF r] r t by (intro exI[of _ res] exI[of _ st']) simp
qed

section \<open>Claim C2: UPLOAD and RUN before any CONFIG\<close>

text \<open>
  Claim C2 says that an UPLOAD or RUN header received while no configuration is held
  changes nothing in the filesystem: no file is created or written. The rejection is
  logged, and \<^verbatim>\<open>log\<close> appends the line to the log file, creating it when it is missing:
  after \<^verbatim>\<open>RUN\<close> on a fresh application directory the file \<^verbatim>\<open>upload.log\<close> exists and
  holds the line.
\<close>

theorem no_config_writes_log:
  "handle_header demo_env ''RUN'' (demo_agent []) = Some (None, log demo_env ''RUN received but no config present.'' (ser_write (''ERR_NO_CONFIG'' @ nl) (demo_agent [])))
   \<and> fs (demo_agent []) [''home'', ''pi'', ''app'', ''upload.log''] = None
   \<and> fs (log demo_env ''RUN received but no config present.'' (ser_write (''ERR_NO_CONFIG'' @ nl) (demo_agent [])))
        [''home'', ''pi'', ''app'', ''upload.log'']
      = Some (File (''[2024-01-01T00:00:00Z] RUN received but no config present.'' @ nl))"
proof (intro conjI)
  show "handle_header demo_env ''RUN'' (demo_agent []) = Some (None, log demo_env ''RUN received but no config present.'' (ser_write (''ERR_NO_CONFIG'' @ nl) (demo_agent [])))"
    by (simp add: handle_header_def run_not_cmd demo_agent_def)
  show "fs (demo_agent []) [''home'', ''pi'', ''app'', ''upload.log''] = None"
    by (simp add: demo_agent_def demo_fs_def)
  show "fs (log demo_env ''RUN received but no config present.'' (ser_write (''ERR_NO_CONFIG'' @ nl) (demo_agent [])))
        [''home'', ''pi'', ''app'', ''upload.log'']
      = Some (File (''[2024-01-01T00:00:00Z] RUN received but no config present.'' @ nl))"
    using log_fs_at[of demo_env "''RUN received but no config present.''" "ser_write (''ERR_NO_CONFIG'' @ nl) (demo_agent [])"]
    unfolding demo_log_resolve by (simp add: demo_agent_def demo_fs_def demo_env_def)
qed

text \<open>
  Claim C2, amended. For a header that starts with \<^verbatim>\<open>UPLOAD\<close>, or is \<^verbatim>\<open>RUN\<close>, received while
  no configuration is held, the agent writes \<^verbatim>\<open>ERR_NO_CONFIG\<close> to the port, logs the
  rejection, and goes on with its command loop (the pass of the loop returns). It holds
  no configuration afterwards and has consumed no byte of the port beyond the header.
  The only change of the filesystem is the line appended to the log file: every other
  path is as before, no directory is made or removed and the staging archive is not
  touched.
\<close>

theorem no_config_rejected:
  assumes "config st = None" and "startswith header ''UPLOAD'' \<or> header = ''RUN''"
  shows "\<exists>st' msg. handle_header env header st = Some (None, st')
     \<and> (\<forall>st0. read_line env st0 = (Some header, st) \<longrightarrow> main_pass env st0 = Some st')
     \<and> trace st' = trace st @ [Tx (''ERR_NO_CONFIG'' @ nl), Log msg]
     \<and> config st' = None \<and> rx st' = rx st
     \<and> (\<forall>q. q \<noteq> resolve (cwd env) (LOG_PATH env) \<longrightarrow> fs st' q = fs st q)
     \<and> fs st' (resolve (cwd env) (LOG_PATH env)) =
         (case fs st (resolve (cwd env) (LOG_PATH env)) of
            Some (File d) \<Rightarrow>
              Some (File (d @ ''['' @ utcnow env (Suc (length (trace st))) @ ''Z] '' @ msg @ nl))
          | Some Dir \<Rightarrow> Some Dir
          | None \<Rightarrow>
              (if fs st (butlast (resolve (cwd env) (LOG_PATH env))) = Some Dir
               then Some (File (''['' @ utcnow env (Suc (length (trace st))) @ ''Z] '' @ msg @ nl))
               else None))"
proof -
  have ne: "header \<noteq> []" using assms(2) by (auto simp: startswith_def)
  define msg where "msg = (if startswith header ''UPLOAD'' then ''UPLOAD received but no config present.''
                           else ''RUN received but no config present.'')"
  define st' where "st' = log env msg (ser_write (''ERR_NO_CONFIG'' @ nl) st)"
  have h: "handle_header env header st = Some (None, st')"
    using assms by (auto simp: handle_header_def upload_not_config run_not_cmd st'_def msg_def)
  have "\<forall>st0. read_line env st0 = (Some header, st) \<longrightarrow> main_pass env st0 = Some st'"
    using main_pass_returns[OF _ ne h] by blast
  moreover have "trace st' = trace st @ [Tx (''ERR_NO_CONFIG'' @ nl), Log msg]"
    "config st' = None" "rx st' = rx st"
    using assms(1) by (simp_all add: st'_def)
  moreover have "\<forall>q. q \<noteq> resolve (cwd env) (LOG_PATH env) \<longrightarrow> fs st' q = fs st q"
    by (simp add: st'_def log_fs_other)
  moreover have "fs st' (resolve (cwd env) (LOG_PATH env)) =
         (case fs st (resolve (cwd env) (LOG_PATH env)) of
            Some (File d) \<Rightarrow>
              Some (File (d @ ''['' @ utcnow env (Suc (length (trace st))) @ ''Z] '' @ msg @ nl))
          | Some Dir \<Rightarrow> Some Dir
          | None \<Rightarrow>
              (if fs st (butlast (resolve (cwd env) (LOG_PATH env))) = Some Dir
               then Some (File (''['' @ utcnow env (Suc (length (trace st))) @ ''Z] '' @ msg @ nl))
               else None))"
    unfolding st'_def log_fs_at by (simp split: option.splits node.splits)
  ultimately show ?thesis using h by blast
qed

theorem no_config_rejected_witness:
  "\<exists>st' msg. handle_header demo_env ''UPLOAD 4 abcd app.tar.gz'' (demo_agent [''abcd'']) = Some (None, st')
     \<and> trace st' = [Tx (''ERR_NO_CONFIG'' @ nl), Log msg]
     \<and> rx st' = [''abcd'']
     \<and> fs st' [''home'', ''pi'', ''app''] = Some Dir
     \<and> fs st' [''home'', ''pi'', ''app'', ''__upload__.tar.gz''] = None"
proof -
  have c: "config (demo_agent [''abcd'']) = None" by (simp add: demo_agent_def)
  have u: "startswith ''UPLOAD 4 abcd app.tar.gz'' ''UPLOAD'' \<or> ''UPLOAD 4 abcd app.tar.gz'' = ''RUN''"
    by (simp add: startswith_def)
  from no_config_rejected[OF c u, of demo_env] obtain st' msg where
    r: "handle_header demo_env ''UPLOAD 4 abcd app.tar.gz'' (demo_agent [''abcd'']) = Some (None, st')"
       "trace st' = trace (demo_agent [''abcd'']) @ [Tx (''ERR_NO_CONFIG'' @ nl), Log msg]"
       "rx st' = rx (demo_agent [''abcd''])"
       "\<forall>q. q \<noteq> resolve (cwd demo_env) (LOG_PATH demo_env) \<longrightarrow> fs st' q = fs (demo_agent [''abcd'']) q"
    by blast
  have "fs st' [''home'', ''pi'', ''app''] = Some Dir"
    "fs st' [''home'', ''pi'', ''app'', ''__upload__.tar.gz''] = None"
    using r(4) unfolding demo_log_resolve by (simp_all add: demo_agent_def demo_fs_def)
  then show ?thesis using r(1-3) by (auto simp: demo_agent_def)
qed

section \<open>Claim C1: the digest decides between ERR_CHECKSUM and DONE\<close>

text \<open>
  Claim C1. Let the agent hold a configuration and handle a well-formed UPLOAD header with
  declared size \<open>n\<close> and digest field \<open>expected\<close>, and let the handling come to its end
  (the payload read returned). The bytes received and hashed, \<open>data\<close>, are the first \<open>n\<close>
  bytes that arrived. Before the reply no call of the extraction (\<^verbatim>\<open>rmtree\<close>, unpacking)
  was made. If the digest of \<open>data\<close> differs from \<open>expected\<close>, the agent then writes
  \<^verbatim>\<open>ERR_CHECKSUM\<close> with the digest of \<open>data\<close>, logs, removes the staging archive and does
  nothing else: the archive file is gone and nothing was extracted. If the digests are
  equal, the agent writes \<^verbatim>\<open>DONE\<close>, and the extraction starts from the state in which
  \<^verbatim>\<open>DONE\<close> is already written and the staging archive holds \<open>data\<close>.
\<close>

theorem upload_digest_gate:
  assumes "config st = Some cfg" "startswith header ''UPLOAD''"
    "split_ws 3 header = [w, size_s, expected, name]" "py_int size_s = Some n"
    "handle_header env header st = Some (None, st')"
  shows "\<exists>pre data. data = take (nat n) (concat (rx st))
      \<and> (\<forall>e \<in> set pre. \<not> is_extraction e)
      \<and> (sha256 env data \<noteq> expected \<longrightarrow>
           trace st' = trace st @ pre @
              [Tx (''ERR_CHECKSUM '' @ sha256 env data @ nl),
               Log ''Checksum mismatch. Waiting for possible retry.'',
               Remove (ARCHIVE_PATH env)]
           \<and> fs st' (resolve (cwd env) (ARCHIVE_PATH env)) = None)
      \<and> (sha256 env data = expected \<longrightarrow>
           (\<exists>st_done msg. trace st_done = trace st @ pre @ [Tx (''DONE'' @ nl)]
              \<and> fs st_done (resolve (cwd env) (ARCHIVE_PATH env)) = Some (File data)
              \<and> st' = log env msg
                    (snd (extract_archive_to env (ARCHIVE_PATH env)
                            (case cfg_directory cfg of None \<Rightarrow> DEFAULT_APP_DIR env | Some d \<Rightarrow> d)
                            st_done))))"
proof -
  define deploy_dir where "deploy_dir = (case cfg_directory cfg of None \<Rightarrow> DEFAULT_APP_DIR env | Some d \<Rightarrow> d)"
  define parent where "parent = (if dirname deploy_dir \<noteq> [] then dirname deploy_dir else deploy_dir)"
  define st1 where "st1 = emit (Makedirs parent) st"
  define m0 where "m0 = ''UPLOAD requested: name='' @ name @ '' size='' @ py_str n
                                    @ '' sha256='' @ expected @ '' deploy_to='' @ deploy_dir"
  note eq = handle_upload_eq[OF assms(1-4), of env, unfolded Let_def, folded deploy_dir_def, folded parent_def, folded st1_def, folded m0_def]
  from assms(5) obtain fs1 where mk: "fs_makedirs (cwd env) (fs st1) parent = Inr fs1"
    unfolding eq by (auto split: sum.splits)
  define st2 where "st2 = ser_write (''OK'' @ nl) (log env m0 (st1\<lparr>fs := fs1\<rparr>))"
  have eq2: "handle_header env header st =
      (case read_exact env n (ARCHIVE_PATH env) (Some progress_cb) st2 of
         None \<Rightarrow> None
       | Some (Inl e, st3) \<Rightarrow> Some (Some e, st3)
       | Some (Inr (got, sha256_actual), st3) \<Rightarrow>
           Some (None, upload_finish env deploy_dir expected got sha256_actual st3))"
    unfolding eq mk st2_def by simp
  obtain got actual st3 where
    rd: "read_exact env n (ARCHIVE_PATH env) (Some progress_cb) st2 = Some (Inr (got, actual), st3)"
    and fin: "st' = upload_finish env deploy_dir expected got actual st3"
  proof (cases "read_exact env n (ARCHIVE_PATH env) (Some progress_cb) st2")
    case None
    then show ?thesis using assms(5) unfolding eq2 by simp
  next
    case (Some x)
    obtain y st3 where x: "x = (y, st3)" by (cases x)
    show ?thesis
    proof (cases y)
      case (Inl e)
      then show ?thesis using assms(5) Some x unfolding eq2 by simp
    next
      case (Inr z)
      obtain got actual where "z = (got, actual)" by (cases z)
      then show ?thesis using assms(5) Some x Inr that unfolding eq2 by simp
    qed
  qed
  define data where "data = take (nat n) (concat (rx st))"
  have rx2: "rx st2 = rx st" by (simp add: st2_def st1_def)
  have tr2: "trace st2 = trace st @ [Makedirs parent, Log m0, Tx (''OK'' @ nl)]"
    by (simp add: st2_def st1_def)
  from read_exact_ok[OF rd] obtain new where
    r: "got = max 0 n" "actual = sha256 env data"
       "fs st3 (resolve (cwd env) (ARCHIVE_PATH env)) = Some (File data)"
       "trace st3 = trace st2 @ OpenWrite (ARCHIVE_PATH env) # new"
       "\<forall>e \<in> set new. is_tx e \<or> is_sleep e"
    unfolding rx2 data_def by blast
  define m1 where "m1 = ''Received '' @ py_str got @ '' bytes, computed sha256='' @ actual"
  define pre where "pre = [Makedirs parent, Log m0, Tx (''OK'' @ nl), OpenWrite (ARCHIVE_PATH env)] @ new @ [Log m1]"
  have nx: "\<forall>e \<in> set pre. \<not> is_extraction e"
  proof
    fix e assume "e \<in> set pre"
    then consider "e \<in> set new" | "e \<in> {Makedirs parent, Log m0, Tx (''OK'' @ nl), OpenWrite (ARCHIVE_PATH env), Log m1}"
      by (auto simp: pre_def)
    then show "\<not> is_extraction e"
    proof cases
      case 1
      then have "is_tx e \<or> is_sleep e" using r(5) by blast
      then show ?thesis by (cases e) auto
    next
      case 2
      then show ?thesis by auto
    qed
  qed
  let ?st4 = "log env m1 st3"
  have tr4: "trace ?st4 = trace st @ pre" by (simp add: r(4) tr2 pre_def)
  have fs4: "fs ?st4 (resolve (cwd env) (ARCHIVE_PATH env)) = Some (File data)" by (simp add: r(3))
  have mismatch: "trace st' = trace st @ pre @
              [Tx (''ERR_CHECKSUM '' @ sha256 env data @ nl),
               Log ''Checksum mismatch. Waiting for possible retry.'',
               Remove (ARCHIVE_PATH env)]
           \<and> fs st' (resolve (cwd env) (ARCHIVE_PATH env)) = None"
    if ne: "sha256 env data \<noteq> expected"
  proof -
    let ?st5 = "log env ''Checksum mismatch. Waiting for possible retry.''
                (ser_write (''ERR_CHECKSUM '' @ actual @ nl) ?st4)"
    have s: "st' = do_remove env (ARCHIVE_PATH env) ?st5"
      using ne by (simp add: fin upload_finish_def Let_def r(2) m1_def)
    have f5: "fs ?st5 (resolve (cwd env) (ARCHIVE_PATH env)) = Some (File data)" using fs4 by simp
    have t5: "trace ?st5 = trace st @ pre @ [Tx (''ERR_CHECKSUM '' @ sha256 env data @ nl),
               Log ''Checksum mismatch. Waiting for possible retry.'']"
      using tr4 by (simp add: r(2))
    show ?thesis using do_remove_file[OF f5] t5 unfolding s by simp
  qed
  have match: "\<exists>st_done msg. trace st_done = trace st @ pre @ [Tx (''DONE'' @ nl)]
              \<and> fs st_done (resolve (cwd env) (ARCHIVE_PATH env)) = Some (File data)
              \<and> st' = log env msg (snd (extract_archive_to env (ARCHIVE_PATH env) deploy_dir st_done))"
    if e: "sha256 env data = expected"
  proof -
    let ?sd = "ser_write (''DONE'' @ nl) ?st4"
    have t: "trace ?sd = trace st @ pre @ [Tx (''DONE'' @ nl)]" using tr4 by simp
    have f: "fs ?sd (resolve (cwd env) (ARCHIVE_PATH env)) = Some (File data)" using fs4 by simp
    have "\<exists>msg. st' = log env msg (snd (extract_archive_to env (ARCHIVE_PATH env) deploy_dir ?sd))"
      using e by (auto simp: fin upload_finish_def Let_def r(2) m1_def split: prod.splits)
    then show ?thesis using t f by blast
  qed
  show ?thesis
    unfolding deploy_dir_def[symmetric]
    apply (rule exI[of _ pre], rule exI[of _ data])
    using nx mismatch match data_def by blast
qed


theorem upload_digest_gate_witness:
  "(\<exists>st' pre. handle_header demo_env ''UPLOAD 4 wrong app.tar.gz''
          ((demo_agent [''abcd''])\<lparr>config := Some demo_config\<rparr>) = Some (None, st')
      \<and> trace st' = pre @ [Tx (''ERR_CHECKSUM sha256:abcd'' @ nl),
                            Log ''Checksum mismatch. Waiting for possible retry.'',
                            Remove ''/home/pi/app/__upload__.tar.gz'']
      \<and> list_all (\<lambda>e. \<not> is_extraction e) pre
      \<and> fs st' [''home'', ''pi'', ''app'', ''__upload__.tar.gz''] = None)
   \<and> (\<exists>st' st_done pre msg. handle_header demo_env ''UPLOAD 4 sha256:abcd app.tar.gz''
          ((demo_agent [''abcd''])\<lparr>config := Some demo_config\<rparr>) = Some (None, st')
      \<and> trace st_done = pre @ [Tx (''DONE'' @ nl)]
      \<and> list_all (\<lambda>e. \<not> is_extraction e) pre
      \<and> fs st_done [''home'', ''pi'', ''app'', ''__upload__.tar.gz''] = Some (File ''abcd'')
      \<and> st' = log demo_env msg (snd (extract_archive_to demo_env ''/home/pi/app/__upload__.tar.gz'' ''/deploy'' st_done)))"
proof
  let ?st = "(demo_agent [''abcd''])\<lparr>config := Some demo_config\<rparr>"
  have c: "config ?st = Some demo_config" by simp
  have i: "py_int ''4'' = Some 4"
    by (simp add: py_int_def c_space_def is_digit_def digits_val_def digit_val_def)
  have ap: "ARCHIVE_PATH demo_env = ''/home/pi/app/__upload__.tar.gz''"
    by (simp add: demo_eval path_join_def startswith_def endswith_def)
  have dd: "(case cfg_directory demo_config of None \<Rightarrow> DEFAULT_APP_DIR demo_env | Some d \<Rightarrow> d) = ''/deploy''"
    by (simp add: demo_config_def)
  have data: "take (nat 4) (concat (rx ?st)) = ''abcd''" by (simp add: demo_agent_def)
  have sh: "sha256 demo_env ''abcd'' = ''sha256:abcd''" by (simp add: demo_env_def)
  {
    have u: "startswith ''UPLOAD 4 wrong app.tar.gz'' ''UPLOAD''" by (simp add: startswith_def)
    have sp: "split_ws 3 ''UPLOAD 4 wrong app.tar.gz'' = [''UPLOAD'', ''4'', ''wrong'', ''app.tar.gz'']"
      by (simp add: numeral_eq_Suc is_space_def)
    obtain st' where h: "handle_header demo_env ''UPLOAD 4 wrong app.tar.gz'' ?st = Some (None, st')"
      using demo_upload_returns[OF sp u] by blast
    have ne: "sha256 demo_env ''abcd'' \<noteq> ''wrong''" by (simp add: demo_env_def)
    from upload_digest_gate[OF c u sp i h, unfolded data] obtain pre where
      p1: "\<forall>e \<in> set pre. \<not> is_extraction e"
      and p2: "sha256 demo_env ''abcd'' \<noteq> ''wrong'' \<longrightarrow>
           trace st' = trace ?st @ pre @
              [Tx (''ERR_CHECKSUM '' @ sha256 demo_env ''abcd'' @ nl),
               Log ''Checksum mismatch. Waiting for possible retry.'',
               Remove (ARCHIVE_PATH demo_env)]
           \<and> fs st' (resolve (cwd demo_env) (ARCHIVE_PATH demo_env)) = None"
      by blast
    have p: "\<forall>e \<in> set pre. \<not> is_extraction e"
         "trace st' = trace ?st @ pre @
              [Tx (''ERR_CHECKSUM '' @ sha256 demo_env ''abcd'' @ nl),
               Log ''Checksum mismatch. Waiting for possible retry.'',
               Remove (ARCHIVE_PATH demo_env)]"
         "fs st' (resolve (cwd demo_env) (ARCHIVE_PATH demo_env)) = None"
      using p1 p2 ne by blast+
    have "trace st' = pre @ [Tx (''ERR_CHECKSUM sha256:abcd'' @ nl),
                            Log ''Checksum mismatch. Waiting for possible retry.'',
                            Remove ''/home/pi/app/__upload__.tar.gz'']"
      using p(2) unfolding sh ap by (simp add: demo_agent_def)
    moreover have "fs st' [''home'', ''pi'', ''app'', ''__upload__.tar.gz''] = None"
      using p(3) unfolding demo_archive_resolve .
    ultimately show "\<exists>st' pre. handle_header demo_env ''UPLOAD 4 wrong app.tar.gz'' ?st = Some (None, st')
      \<and> trace st' = pre @ [Tx (''ERR_CHECKSUM sha256:abcd'' @ nl),
                            Log ''Checksum mismatch. Waiting for possible retry.'',
                            Remove ''/home/pi/app/__upload__.tar.gz'']
      \<and> list_all (\<lambda>e. \<not> is_extraction e) pre
      \<and> fs st' [''home'', ''pi'', ''app'', ''__upload__.tar.gz''] = None"
      using h p(1) by (auto simp: list_all_iff)
  }
  {
    have u: "startswith ''UPLOAD 4 sha256:abcd app.tar.gz'' ''UPLOAD''" by (simp add: startswith_def)
    have sp: "split_ws 3 ''UPLOAD 4 sha256:abcd app.tar.gz'' = [''UPLOAD'', ''4'', ''sha256:abcd'', ''app.tar.gz'']"
      by (simp add: numeral_eq_Suc is_space_def)
    obtain st' where h: "handle_header demo_env ''UPLOAD 4 sha256:abcd app.tar.gz'' ?st = Some (None, st')"
      using demo_upload_returns[OF sp u] by blast
    from upload_digest_gate[OF c u sp i h, unfolded data dd] obtain pre where
      p1: "\<forall>e \<in> set pre. \<not> is_extraction e"
      and p2: "sha256 demo_env ''abcd'' = ''sha256:abcd'' \<longrightarrow>
           (\<exists>st_done msg. trace st_done = trace ?st @ pre @ [Tx (''DONE'' @ nl)]
              \<and> fs st_done (resolve (cwd demo_env) (ARCHIVE_PATH demo_env)) = Some (File ''abcd'')
              \<and> st' = log demo_env msg
                    (snd (extract_archive_to demo_env (ARCHIVE_PATH demo_env) ''/deploy'' st_done)))"
      by blast
    from p2 sh obtain st_done msg where
      p: "trace st_done = trace ?st @ pre @ [Tx (''DONE'' @ nl)]"
         "trace st_done = trace ?st @ pre @ [Tx (''DONE'' @ nl)]"
         "fs st_done (resolve (cwd demo_env) (ARCHIVE_PATH demo_env)) = Some (File ''abcd'')"
         "st' = log demo_env msg (snd (extract_archive_to demo_env (ARCHIVE_PATH demo_env) ''/deploy'' st_done))"
      by blast
    have "trace st_done = pre @ [Tx (''DONE'' @ nl)]" using p(2) by (simp add: demo_agent_def)
    moreover have "fs st_done [''home'', ''pi'', ''app'', ''__upload__.tar.gz''] = Some (File ''abcd'')"
      using p(3) unfolding demo_archive_resolve .
    ultimately show "\<exists>st' st_done pre msg. handle_header demo_env ''UPLOAD 4 sha256:abcd app.tar.gz'' ?st = Some (None, st')
      \<and> trace st_done = pre @ [Tx (''DONE'' @ nl)]
      \<and> list_all (\<lambda>e. \<not> is_extraction e) pre
      \<and> fs st_done [''home'', ''pi'', ''app'', ''__upload__.tar.gz''] = Some (File ''abcd'')
      \<and> st' = log demo_env msg (snd (extract_archive_to demo_env ''/home/pi/app/__upload__.tar.gz'' ''/deploy'' st_done))"
      using h p1 p(4) unfolding ap by (auto simp: list_all_iff)
  }
qed

section \<open>Claim C6: a CONFIG header whose size is no integer\<close>

text \<open>
  Claim C6 asks for \<^verbatim>\<open>ERR_CONFIG_HEADER\<close> on every malformed CONFIG header. A header with
  the wrong number of fields gets it. For \<^verbatim>\<open>CONFIG abc\<close> the conversion \<^verbatim>\<open>int(parts[1])\<close>
  raises \<^verbatim>\<open>ValueError\<close> outside any handler of its own: the exception leaves the body of
  the loop, is logged, and nothing is written to the port. The UPLOAD branch catches the
  same exception and answers \<^verbatim>\<open>ERR_HEADER\<close>.
\<close>

theorem config_bad_size_no_reply:
  "handle_header env ''CONFIG abc'' st = Some (Some (ValueError ''abc''), st)
   \<and> (\<exists>st'. main_pass demo_env (demo_agent [''CONFIG abc'' @ nl]) = Some st'
         \<and> trace st' = [Log (''Exception: invalid literal for int() with base 10: '' @ [CHR 0x27] @ ''abc'' @ [CHR 0x27]),
                        Sleep 1])
   \<and> handle_header env ''CONFIG'' st
       = Some (None, log env ''Bad CONFIG header: CONFIG'' (ser_write (''ERR_CONFIG_HEADER'' @ nl) st))
   \<and> handle_header env ''UPLOAD abc d e'' (st\<lparr>config := Some cfg\<rparr>)
       = Some (None, log env ''Bad size in header: abc''
                       (ser_write (''ERR_HEADER'' @ nl) (st\<lparr>config := Some cfg\<rparr>)))"
proof (intro conjI)
  show h: "handle_header env ''CONFIG abc'' st = Some (Some (ValueError ''abc''), st)" for env st
    by (simp add: handle_header_def startswith_def config_abc_split py_int_abc)
  have rl: "read_line demo_env (demo_agent [''CONFIG abc'' @ nl]) = (Some ''CONFIG abc'', demo_agent [])"
    by (simp add: read_line_def ser_readline_def demo_agent_def demo_env_def nl_def strip_def)
  show "\<exists>st'. main_pass demo_env (demo_agent [''CONFIG abc'' @ nl]) = Some st'
         \<and> trace st' = [Log (''Exception: invalid literal for int() with base 10: '' @ [CHR 0x27] @ ''abc'' @ [CHR 0x27]),
                        Sleep 1]"
    unfolding main_pass_def rl by (simp add: h demo_agent_def)
  show "handle_header env ''CONFIG'' st
       = Some (None, log env ''Bad CONFIG header: CONFIG'' (ser_write (''ERR_CONFIG_HEADER'' @ nl) st))"
    by (simp add: handle_header_def startswith_def is_space_def)
  show "handle_header env ''UPLOAD abc d e'' (st\<lparr>config := Some cfg\<rparr>)
       = Some (None, log env ''Bad size in header: abc''
                       (ser_write (''ERR_HEADER'' @ nl) (st\<lparr>config := Some cfg\<rparr>)))"
    by (simp add: handle_header_def startswith_def is_space_def numeral_eq_Suc py_int_abc)
qed

section \<open>Claim C8: what RUN sends back\<close>

text \<open>
  Claim C8 says that after a successful spawn the agent always ends with \<^verbatim>\<open>EXIT\<close> and the
  exit code. The read of the output can raise (the output is decoded as text); the
  handler of \<^verbatim>\<open>run_with_config\<close> (lines 153-158) then writes \<^verbatim>\<open>ERR_STREAM\<close> and returns
  without \<^verbatim>\<open>proc.wait()\<close>: the spawn succeeded, one line was forwarded, and no \<^verbatim>\<open>EXIT\<close>
  follows.
\<close>

theorem run_stream_error_no_exit:
  "\<exists>st'. handle_header (demo_env\<lparr>popen := \<lambda>cmd. Inr demo_proc_broken\<rparr>) ''RUN'' demo_deployed = Some (None, st')
     \<and> filter is_tx (trace st')
         = [Tx (''RUNNING'' @ nl), Tx (''hello'' @ nl), Tx (''ERR_STREAM codec cannot decode byte'' @ nl)]"
proof -
  have c: "config demo_deployed = Some demo_config" by (simp add: demo_deployed_def)
  show ?thesis
    unfolding handle_run_eq[OF c demo_run_paths(1) demo_main_exists demo_run_paths(2) refl]
    by (simp add: demo_proc_broken_def stream_lines_trace filter_tx_stream rstrip_nl_def nl_def demo_deployed_def)
qed

text \<open>
  Claim C8, amended. Let the agent hold a configuration whose entry point exists, and
  handle \<^verbatim>\<open>RUN\<close>. If the spawn fails, the only write to the port is \<^verbatim>\<open>ERR_RUN\<close> with the
  text of the exception: no \<^verbatim>\<open>RUNNING\<close>. If the spawn succeeds, the writes are, in order,
  \<^verbatim>\<open>RUNNING\<close>, then each line of the merged output without its trailing line feeds and
  with one line feed added, and then: \<^verbatim>\<open>EXIT\<close> with the return code when the output ended
  and the process exited (a process exiting with code 3 gives \<^verbatim>\<open>EXIT 3\<close>); \<^verbatim>\<open>ERR_STREAM\<close>
  with the text of the exception, and no \<^verbatim>\<open>EXIT\<close>, when reading the output raised. While
  the process neither ends its output nor exits, the handling does not return.
\<close>

theorem run_streams_output:
  assumes "config st = Some cfg"
    and "main_path = path_join (case cfg_directory cfg of None \<Rightarrow> DEFAULT_APP_DIR env | Some d \<Rightarrow> d)
                               (case cfg_main cfg of None \<Rightarrow> ''main.py'' | Some m \<Rightarrow> m)"
    and "fs_exists (cwd env) (fs st) main_path"
    and "cmd = [''python3'', ''-u'', main_path] @ (case cfg_args cfg of None \<Rightarrow> [] | Some a \<Rightarrow> a)"
  shows "(\<forall>e. popen env cmd = Inl e \<longrightarrow>
            (\<exists>st'. handle_header env ''RUN'' st = Some (None, st')
               \<and> filter is_tx (drop (length (trace st)) (trace st')) = [Tx (''ERR_RUN '' @ exn_str e @ nl)]))
       \<and> (\<forall>proc code. popen env cmd = Inr proc \<and> ending proc = Exited code \<longrightarrow>
            (\<exists>st'. handle_header env ''RUN'' st = Some (None, st')
               \<and> filter is_tx (drop (length (trace st)) (trace st'))
                   = [Tx (''RUNNING'' @ nl)]
                     @ map (\<lambda>l. Tx (rstrip_nl l @ nl)) (filter (\<lambda>l. l \<noteq> []) (out_lines proc))
                     @ [Tx (''EXIT '' @ py_str code @ nl)]))
       \<and> (\<forall>proc e. popen env cmd = Inr proc \<and> ending proc = StreamError e \<longrightarrow>
            (\<exists>st'. handle_header env ''RUN'' st = Some (None, st')
               \<and> filter is_tx (drop (length (trace st)) (trace st'))
                   = [Tx (''RUNNING'' @ nl)]
                     @ map (\<lambda>l. Tx (rstrip_nl l @ nl)) (filter (\<lambda>l. l \<noteq> []) (out_lines proc))
                     @ [Tx (''ERR_STREAM '' @ exn_str e @ nl)]))
       \<and> (\<forall>proc. popen env cmd = Inr proc \<and> ending proc = Hangs \<longrightarrow> handle_header env ''RUN'' st = None)"
  unfolding handle_run_eq[OF assms refl]
  by (auto simp: stream_lines_trace filter_tx_stream)

theorem run_streams_output_witness:
  "(\<exists>st'. handle_header (demo_env\<lparr>popen := \<lambda>cmd. Inr demo_proc_exit3\<rparr>) ''RUN'' demo_deployed = Some (None, st')
     \<and> filter is_tx (trace st')
         = [Tx (''RUNNING'' @ nl), Tx (''hello'' @ nl), Tx (''bye'' @ nl), Tx (''EXIT 3'' @ nl)])
   \<and> (\<exists>st'. handle_header demo_env ''RUN'' demo_deployed = Some (None, st')
     \<and> filter is_tx (trace st')
         = [Tx (''ERR_RUN [Errno 2] No such file or directory: '' @ [CHR 0x27] @ ''python3'' @ [CHR 0x27] @ nl)])"
proof
  have c: "config demo_deployed = Some demo_config" by (simp add: demo_deployed_def)
  have t: "trace demo_deployed = []" by (simp add: demo_deployed_def)
  let ?env = "demo_env\<lparr>popen := \<lambda>cmd. Inr demo_proc_exit3\<rparr>"
  note th = run_streams_output[OF c demo_run_paths(1) demo_main_exists demo_run_paths(2), unfolded t]
  have "popen ?env [''python3'', ''-u'', ''/deploy/app.py'', ''--x''] = Inr demo_proc_exit3
        \<and> ending demo_proc_exit3 = Exited 3"
    by (simp add: demo_proc_exit3_def)
  with th[of ?env] obtain st' where
    r: "handle_header ?env ''RUN'' demo_deployed = Some (None, st')"
       "filter is_tx (drop (length ([]::event list)) (trace st'))
                   = [Tx (''RUNNING'' @ nl)]
                     @ map (\<lambda>l. Tx (rstrip_nl l @ nl)) (filter (\<lambda>l. l \<noteq> []) (out_lines demo_proc_exit3))
                     @ [Tx (''EXIT '' @ py_str 3 @ nl)]"
    by blast
  have "filter is_tx (trace st') = [Tx (''RUNNING'' @ nl), Tx (''hello'' @ nl), Tx (''bye'' @ nl), Tx (''EXIT 3'' @ nl)]"
    using r(2) by (simp add: demo_proc_exit3_def rstrip_nl_def py_str_def nl_def)
  then show "\<exists>st'. handle_header ?env ''RUN'' demo_deployed = Some (None, st')
     \<and> filter is_tx (trace st')
         = [Tx (''RUNNING'' @ nl), Tx (''hello'' @ nl), Tx (''bye'' @ nl), Tx (''EXIT 3'' @ nl)]"
    using r(1) by blast
  have "popen demo_env [''python3'', ''-u'', ''/deploy/app.py'', ''--x''] = Inl (FileNotFoundError ''python3'')"
    by (simp add: demo_env_def)
  with th[of demo_env] obtain st' where
    q: "handle_header demo_env ''RUN'' demo_deployed = Some (None, st')"
       "filter is_tx (drop (length ([]::event list)) (trace st')) = [Tx (''ERR_RUN '' @ exn_str (FileNotFoundError ''python3'') @ nl)]"
    by blast
  have "filter is_tx (trace st') = [Tx (''ERR_RUN [Errno 2] No such file or directory: '' @ [CHR 0x27] @ ''python3'' @ [CHR 0x27] @ nl)]"
    using q(2) by simp
  then show "\<exists>st'. handle_header demo_env ''RUN'' demo_deployed = Some (None, st')
     \<and> filter is_tx (trace st')
         = [Tx (''ERR_RUN [Errno 2] No such file or directory: '' @ [CHR 0x27] @ ''python3'' @ [CHR 0x27] @ nl)]"
    using q(1) by blast
qed

section \<open>Claim C9: extraction replaces the deploy directory\<close>

text \<open>
  The refusal of a dangerous path is logged, and \<^verbatim>\<open>log\<close> appends the line to the log file,
  creating it when it is missing: after the refusal of the target \<^verbatim>\<open>/\<close> the file
  \<^verbatim>\<open>upload.log\<close> exists and holds the line.
\<close>

lemma extract_refusal_writes_log:
  "extract_archive_to demo_env (ARCHIVE_PATH demo_env) ''/'' demo_deployed
     = ((False, Some ''DANGEROUS_PATH''), log demo_env ''Refusing to remove dangerous path: /'' demo_deployed)
   \<and> fs demo_deployed [''home'', ''pi'', ''app'', ''upload.log''] = None
   \<and> fs (log demo_env ''Refusing to remove dangerous path: /'' demo_deployed)
        [''home'', ''pi'', ''app'', ''upload.log'']
      = Some (File (''[2024-01-01T00:00:00Z] Refusing to remove dangerous path: /'' @ nl))"
proof (intro conjI)
  have "fs_exists (cwd demo_env) (fs demo_deployed) ''/'' \<and> abspath (cwd demo_env) ''/'' \<in> set [''/'', []]"
    by (simp add: fs_exists_def demo_deployed_def demo_fs_deployed_def demo_env_def path_eval)
  from extract_refused[OF this]
  show "extract_archive_to demo_env (ARCHIVE_PATH demo_env) ''/'' demo_deployed
     = ((False, Some ''DANGEROUS_PATH''), log demo_env ''Refusing to remove dangerous path: /'' demo_deployed)"
    by simp
  show "fs demo_deployed [''home'', ''pi'', ''app'', ''upload.log''] = None"
    by (simp add: demo_deployed_def demo_fs_deployed_def)
  show "fs (log demo_env ''Refusing to remove dangerous path: /'' demo_deployed)
        [''home'', ''pi'', ''app'', ''upload.log'']
      = Some (File (''[2024-01-01T00:00:00Z] Refusing to remove dangerous path: /'' @ nl))"
    using log_fs_at[of demo_env "''Refusing to remove dangerous path: /''" demo_deployed]
    unfolding demo_log_resolve by (simp add: demo_deployed_def demo_fs_deployed_def demo_env_def)
qed

text \<open>
  Claim C9 says that extraction fully replaces the deploy directory, except that the agent
  refuses to remove or extract when the resolved deploy path is empty or a filesystem
  root. What \<^verbatim>\<open>extract_archive_to\<close> does on a well-formed filesystem:

  \<^item> When the target exists and \<^verbatim>\<open>os.path.abspath\<close> of it is \<^verbatim>\<open>/\<close>, the call answers
    \<^verbatim>\<open>DANGEROUS_PATH\<close>, nothing is removed or unpacked, and the only change of the
    filesystem is the line appended to the log file.
  \<^item> The safety check compares \<^verbatim>\<open>os.path.abspath(target_dir)\<close> with \<^verbatim>\<open>"/"\<close> and \<^verbatim>\<open>""\<close>.
    A target that names the root and whose \<^verbatim>\<open>abspath\<close> is another string is not refused:
    \<^verbatim>\<open>shutil.rmtree\<close> is called on it, and the call fails. \<^verbatim>\<open>posixpath.normpath\<close> keeps
    exactly two leading slashes, so \<^verbatim>\<open>//\<close> is such a target.
  \<^item> When the target is the empty string nothing is changed and the call fails.
  \<^item> When the removal of an existing target directory fails, the call fails with the
    exception of \<^verbatim>\<open>rmtree\<close>, nothing is unpacked, and what \<^verbatim>\<open>rmtree\<close> had not removed
    yet is still there.
  \<^item> When the call succeeds, the target is not the root; every path that exists strictly
    below the target afterwards is the path of a member of the staged archive, or of a
    directory above such a member; every member of the archive is at its path, a file
    with its content (of two members with one path, the later one); and an existing target
    directory has been removed, made again and the archive unpacked into it, in this
    order.
\<close>

theorem extract_archive_to_outcomes:
  assumes wf: "wf_fs (fs st)"
    and ex: "extract_archive_to env archive_path target st = (res, st')"
  shows "(fs_exists (cwd env) (fs st) target \<and> abspath (cwd env) target \<in> set [''/'', []] \<longrightarrow>
            res = (False, Some ''DANGEROUS_PATH'')
            \<and> trace st' = trace st @ [Log (''Refusing to remove dangerous path: '' @ target)]
            \<and> (\<forall>q. q \<noteq> resolve (cwd env) (LOG_PATH env) \<longrightarrow> fs st' q = fs st q))
       \<and> (target \<noteq> [] \<and> resolve (cwd env) target = []
            \<and> abspath (cwd env) target \<notin> set [''/'', []] \<longrightarrow>
            trace st' = trace st @ [Rmtree target] \<and> \<not> fst res)
       \<and> (target = [] \<longrightarrow> \<not> fst res \<and> fs st' = fs st \<and> trace st' = trace st @ [Makedirs target])
       \<and> (target \<noteq> [] \<and> resolve (cwd env) target \<noteq> []
            \<and> fs st (resolve (cwd env) target) = Some Dir
            \<and> rmtree_fault env (resolve (cwd env) target) = Some (e, kept)
            \<and> abspath (cwd env) target \<notin> set [''/'', []] \<longrightarrow>
            res = (False, Some (exn_str e))
            \<and> trace st' = trace st @ [Rmtree target]
            \<and> (\<forall>q. fs st' q = (if strict_prefix (resolve (cwd env) target) q \<and> \<not> kept q then None
                                else fs st q)))
       \<and> (fst res \<longrightarrow>
            resolve (cwd env) target \<noteq> []
            \<and> below_from (resolve (cwd env) target)
                 (\<Union>m \<in> set (archive_members env (fs st) archive_path). member_paths (cwd env) target m)
                 (fs st')
            \<and> (\<forall>p n. unpacked (cwd env) target (archive_members env (fs st) archive_path) p = Some n
                   \<longrightarrow> fs st' p = Some n)
            \<and> (fs st (resolve (cwd env) target) = Some Dir \<longrightarrow>
                 trace st' = trace st @ [Rmtree target, Makedirs target, Untar archive_path target]))"
proof (intro conjI impI)
  assume a: "fs_exists (cwd env) (fs st) target \<and> abspath (cwd env) target \<in> set [''/'', []]"
  from ex[unfolded extract_refused[OF a]]
  have r: "res = (False, Some ''DANGEROUS_PATH'')"
    and s: "st' = log env (''Refusing to remove dangerous path: '' @ target) st" by simp_all
  show "res = (False, Some ''DANGEROUS_PATH'')" by (rule r)
  show "trace st' = trace st @ [Log (''Refusing to remove dangerous path: '' @ target)]"
    unfolding s by simp
  show "\<forall>q. q \<noteq> resolve (cwd env) (LOG_PATH env) \<longrightarrow> fs st' q = fs st q"
    unfolding s by (simp add: log_fs_other)
next
  assume a: "target \<noteq> [] \<and> resolve (cwd env) target = []
            \<and> abspath (cwd env) target \<notin> set [''/'', []]"
  have root: "fs st [] = Some Dir" using wf by (simp add: wf_fs_def)
  from a have t: "target \<noteq> []" and r: "resolve (cwd env) target = []"
    and n: "abspath (cwd env) target \<notin> set [''/'', []]" by simp_all
  from ex[unfolded extract_root_alias[OF root t r n]]
  show "trace st' = trace st @ [Rmtree target]" "\<not> fst res" by auto
next
  assume t: "target = []"
  from ex[unfolded t extract_empty_target]
  show "\<not> fst res" "fs st' = fs st" "trace st' = trace st @ [Makedirs target]"
    unfolding t by auto
next
  assume a: "target \<noteq> [] \<and> resolve (cwd env) target \<noteq> []
            \<and> fs st (resolve (cwd env) target) = Some Dir
            \<and> rmtree_fault env (resolve (cwd env) target) = Some (e, kept)
            \<and> abspath (cwd env) target \<notin> set [''/'', []]"
  then have x: "extract_archive_to env archive_path target st =
           ((False, Some (exn_str e)),
            (emit (Rmtree target) st)
              \<lparr>fs := (\<lambda>q. if strict_prefix (resolve (cwd env) target) q \<and> \<not> kept q then None
                           else fs st q)\<rparr>)"
    by (intro extract_fault) simp_all
  from ex[unfolded x]
  show "res = (False, Some (exn_str e))" "trace st' = trace st @ [Rmtree target]"
    "\<forall>q. fs st' q = (if strict_prefix (resolve (cwd env) target) q \<and> \<not> kept q then None
                                else fs st q)"
    by auto
next
  assume ok: "fst res"
  then have "extract_archive_to env archive_path target st = ((True, snd res), st')"
    using ex by (cases res) simp
  from extract_success[OF wf this] obtain f1 f2 tr where
    c: "f1 = fs st \<and> fs st (resolve (cwd env) target) = None \<and> tr = trace st
        \<or> f1 = (\<lambda>q. if prefix (resolve (cwd env) target) q then None else fs st q)
          \<and> fs st (resolve (cwd env) target) = Some Dir \<and> tr = trace st @ [Rmtree target]"
    and rn: "resolve (cwd env) target \<noteq> []"
    and m: "fs_makedirs (cwd env) f1 target = Inr f2"
    and u: "untar_to env archive_path target f2 = (None, fs st')"
    and tr: "trace st' = tr @ [Makedirs target, Untar archive_path target]"
    by blast
  let ?r = "resolve (cwd env) target"
  have nb1: "\<And>q. strict_prefix ?r q \<Longrightarrow> f1 q = None"
  proof -
    fix q assume sp: "strict_prefix ?r q"
    from c show "f1 q = None"
    proof
      assume a: "f1 = fs st \<and> fs st ?r = None \<and> tr = trace st"
      then have "fs st ?r \<noteq> Some Dir" by simp
      from wf_below[OF wf this sp] a show ?thesis by simp
    next
      assume "f1 = (\<lambda>q. if prefix ?r q then None else fs st q)
          \<and> fs st ?r = Some Dir \<and> tr = trace st @ [Rmtree target]"
      then show ?thesis using sp by (simp add: strict_prefix_def)
    qed
  qed
  have pres1: "\<And>q c. f1 q = Some (File c) \<Longrightarrow> fs st q = Some (File c)"
    using c by (auto split: if_splits)
  have nb2: "\<And>q. strict_prefix ?r q \<Longrightarrow> f2 q = None"
    using makedirs_below[OF m] nb1 by simp
  have pres2: "\<And>c. f2 (resolve (cwd env) archive_path) = Some (File c)
                 \<Longrightarrow> fs st (resolve (cwd env) archive_path) = Some (File c)"
    using makedirs_pres[OF m] pres1 by blast
  show "resolve (cwd env) target \<noteq> []" by (rule rn)
  show "below_from ?r
          (\<Union>m \<in> set (archive_members env (fs st) archive_path). member_paths (cwd env) target m)
          (fs st')"
    by (rule below_from_members[of ?r f2 env archive_path target None "fs st'" "fs st", OF nb2 u pres2])
  from untar_to_ok[OF u] obtain c0 where
    xa: "extractall (cwd env) target (archive_members env f2 archive_path) f2 = (None, fs st')"
    and ar: "f2 (resolve (cwd env) archive_path) = Some (File c0)" by blast
  have "archive_members env f2 archive_path = archive_members env (fs st) archive_path"
    using ar pres2[OF ar] by (simp add: archive_members_def)
  with xa have xa': "extractall (cwd env) target (archive_members env (fs st) archive_path) f2 = (None, fs st')"
    by simp
  show "\<forall>p n. unpacked (cwd env) target (archive_members env (fs st) archive_path) p = Some n
                   \<longrightarrow> fs st' p = Some n"
    using extractall_unpacked[OF xa'] by blast
  show "trace st' = trace st @ [Rmtree target, Makedirs target, Untar archive_path target]"
    if "fs st (resolve (cwd env) target) = Some Dir"
    using c tr that by auto
qed

theorem extract_archive_to_outcomes_witness:
  "wf_fs (fs demo_staged)
   \<and> fst (fst (extract_archive_to demo_env_tar (ARCHIVE_PATH demo_env_tar) ''/deploy'' demo_staged))
   \<and> fs demo_staged [''deploy'', ''old.txt''] = Some (File ''old'')
   \<and> fs (snd (extract_archive_to demo_env_tar (ARCHIVE_PATH demo_env_tar) ''/deploy'' demo_staged))
        [''deploy'', ''old.txt''] = None
   \<and> fs (snd (extract_archive_to demo_env_tar (ARCHIVE_PATH demo_env_tar) ''/deploy'' demo_staged))
        [''deploy'', ''app.py''] = Some (File ''print(2)'')
   \<and> fs (snd (extract_archive_to demo_env_tar (ARCHIVE_PATH demo_env_tar) ''/deploy'' demo_staged))
        [''deploy'', ''lib'', ''util.py''] = Some (File ''x = 1'')
   \<and> trace (snd (extract_archive_to demo_env_tar (ARCHIVE_PATH demo_env_tar) ''/deploy'' demo_staged))
        = [Rmtree ''/deploy'', Makedirs ''/deploy'', Untar (ARCHIVE_PATH demo_env_tar) ''/deploy'']
   \<and> abspath (cwd demo_env_tar) ''//'' = ''//''
   \<and> resolve (cwd demo_env_tar) ''//'' = []
   \<and> trace (snd (extract_archive_to demo_env_tar (ARCHIVE_PATH demo_env_tar) ''//'' demo_staged))
        = [Rmtree ''//'']
   \<and> \<not> fst (fst (extract_archive_to demo_env_tar (ARCHIVE_PATH demo_env_tar) ''//'' demo_staged))
   \<and> fst (extract_archive_to demo_env_locked (ARCHIVE_PATH demo_env_locked) ''/deploy'' demo_staged)
        = (False, Some ''[Errno 13] Permission denied'')
   \<and> fs (snd (extract_archive_to demo_env_locked (ARCHIVE_PATH demo_env_locked) ''/deploy'' demo_staged))
        [''deploy'', ''old.txt''] = Some (File ''old'')"
proof -
  let ?ap = "ARCHIVE_PATH demo_env_tar"
  let ?x = "extract_archive_to demo_env_tar ?ap ''/deploy'' demo_staged"
  let ?y = "extract_archive_to demo_env_tar ?ap ''//'' demo_staged"
  have wf: "wf_fs (fs demo_staged)" using demo_staged_wf by (simp add: demo_staged_def)
  have r: "resolve (cwd demo_env_tar) ''/deploy'' = [''deploy'']"
    by (simp add: demo_env_tar_def demo_env_def path_eval)
  have d: "fs demo_staged [''deploy''] = Some Dir" "fs demo_staged [''deploy'', ''old.txt''] = Some (File ''old'')"
    "trace demo_staged = []"
    by (simp_all add: demo_staged_def demo_fs_staged_def)
  note t = extract_archive_to_outcomes[of demo_staged demo_env_tar ?ap "''/deploy''" "fst ?x" "snd ?x", OF wf]
  note s = extract_archive_to_outcomes[of demo_staged demo_env_tar ?ap "''//''" "fst ?y" "snd ?y", OF wf]
  let ?z = "extract_archive_to demo_env_locked (ARCHIVE_PATH demo_env_locked) ''/deploy'' demo_staged"
  note l = extract_archive_to_outcomes[of demo_staged demo_env_locked "ARCHIVE_PATH demo_env_locked"
             "''/deploy''" "fst ?z" "snd ?z" "OSError ''[Errno 13] Permission denied''" "\<lambda>q. True", OF wf]
  have lk: "resolve (cwd demo_env_locked) ''/deploy'' = [''deploy'']"
    "abspath (cwd demo_env_locked) ''/deploy'' = ''/deploy''"
    "rmtree_fault demo_env_locked [''deploy'']
       = Some (OSError ''[Errno 13] Permission denied'', \<lambda>q. True)"
    by (simp_all add: demo_env_locked_def demo_env_tar_def demo_env_def path_eval)
  have lz: "fst ?z = (False, Some ''[Errno 13] Permission denied'')
            \<and> fs (snd ?z) [''deploy'', ''old.txt''] = Some (File ''old'')"
    using l lk d by simp
  have b: "below_from [''deploy'']
             (\<Union>m \<in> set (archive_members demo_env_tar (fs demo_staged) ?ap).
                 member_paths (cwd demo_env_tar) ''/deploy'' m)
             (fs (snd ?x))"
    and up: "\<forall>p n. unpacked (cwd demo_env_tar) ''/deploy'' (archive_members demo_env_tar (fs demo_staged) ?ap) p = Some n
                   \<longrightarrow> fs (snd ?x) p = Some n"
    and tr: "trace (snd ?x) = [Rmtree ''/deploy'', Makedirs ''/deploy'', Untar ?ap ''/deploy'']"
    using t demo_extract_ok r d by simp_all
  have "fs (snd ?x) [''deploy'', ''old.txt''] = None"
  proof (rule ccontr)
    assume n: "fs (snd ?x) [''deploy'', ''old.txt''] \<noteq> None"
    have "strict_prefix [''deploy''] [''deploy'', ''old.txt'']" by (simp add: strict_prefix_def)
    with b n have "[''deploy'', ''old.txt''] \<in>
        (\<Union>m \<in> set (archive_members demo_env_tar (fs demo_staged) ?ap).
                 member_paths (cwd demo_env_tar) ''/deploy'' m)"
      unfolding below_from_def by blast
    then show False using demo_unpacked(3) by simp
  qed
  moreover have "fs (snd ?x) [''deploy'', ''app.py''] = Some (File ''print(2)'')"
    "fs (snd ?x) [''deploy'', ''lib'', ''util.py''] = Some (File ''x = 1'')"
    using up demo_unpacked(1,2) by blast+
  moreover have "trace (snd ?y) = [Rmtree ''//''] \<and> \<not> fst (fst ?y)"
    using s demo_double_slash d(3) by simp
  ultimately show ?thesis using wf d demo_extract_ok tr demo_double_slash lz by simp
qed

section \<open>Claim C3: what the archive contains\<close>

text \<open>
  Claim C3 says that a file other than \<^verbatim>\<open>config.json\<close> is in the archive if and only if its
  relative path matches an include pattern and no exclude pattern. The archive is written
  into the source folder, as \<^verbatim>\<open>__upload__.tar.gz\<close>. A folder that holds the archive of an
  earlier upload holds a file whose path matches \<^verbatim>\<open>**\<close> and does not match \<^verbatim>\<open>*.log\<close>, and
  the archive does not contain it: \<^verbatim>\<open>make_archive\<close> unlinks it, and \<^verbatim>\<open>tf.add\<close> skips the
  archive that is being written.
\<close>

theorem make_archive_skips_itself:
  "''__upload__.tar.gz'' \<in> fst ` set demo_folder_stale
   \<and> ''__upload__.tar.gz'' \<noteq> ''config.json''
   \<and> should_include glob_match ''__upload__.tar.gz'' [''**'']
   \<and> \<not> should_exclude glob_match ''__upload__.tar.gz'' [''*.log'']
   \<and> make_archive glob_match demo_folder_stale (Some ''__upload__.tar.gz'') demo_config
        = [(''app.py'', ''print(2)''), (''config.json'', ''{}'')]"
  by (simp add: demo_folder_stale_def demo_config_def make_archive_def tf_add_def)

text \<open>
  Claim C3, amended. For every source folder and config, a path is the name of a member of
  the archive exactly when it is the relative path of a file of the folder, it is not the
  path of the archive itself, and either it is \<^verbatim>\<open>config.json\<close> (whatever the patterns are),
  or \<^verbatim>\<open>should_include\<close> holds of it for the include patterns and \<^verbatim>\<open>should_exclude\<close> does
  not hold of it for the exclude patterns; the patterns are those of the config, \<^verbatim>\<open>["**"]\<close>
  and \<^verbatim>\<open>[]\<close> when the config has none. By \<open>should_include_iff\<close> and \<open>should_exclude_iff\<close>
  these hold exactly when some pattern of the list matches the path. For the folder with
  \<^verbatim>\<open>app.py\<close>, \<^verbatim>\<open>data.log\<close> and \<^verbatim>\<open>config.json\<close>, the include patterns \<^verbatim>\<open>["**"]\<close> and the
  exclude patterns \<^verbatim>\<open>["*.log"]\<close>, the archive contains \<^verbatim>\<open>app.py\<close> and \<^verbatim>\<open>config.json\<close> and
  does not contain \<^verbatim>\<open>data.log\<close>.
\<close>

theorem make_archive_contents:
  "rel \<in> archive_names (make_archive fnmatch folder out_rel c) \<longleftrightarrow>
     rel \<in> fst ` set folder \<and> out_rel \<noteq> Some rel
     \<and> (rel = ''config.json''
          \<or> should_include fnmatch rel (case cfg_include c of None \<Rightarrow> [''**''] | Some pats \<Rightarrow> pats)
            \<and> \<not> should_exclude fnmatch rel (case cfg_exclude c of None \<Rightarrow> [] | Some pats \<Rightarrow> pats))"
  unfolding make_archive_def Let_def add_files_names
  by (cases out_rel) (auto simp: archive_names_def)

theorem make_archive_contents_witness:
  "''app.py'' \<in> archive_names (make_archive glob_match demo_folder (Some ''__upload__.tar.gz'') demo_config)
   \<and> ''config.json'' \<in> archive_names (make_archive glob_match demo_folder (Some ''__upload__.tar.gz'') demo_config)
   \<and> ''data.log'' \<notin> archive_names (make_archive glob_match demo_folder (Some ''__upload__.tar.gz'') demo_config)"
  using make_archive_contents[of "''app.py''" glob_match demo_folder "Some ''__upload__.tar.gz''" demo_config]
        make_archive_contents[of "''config.json''" glob_match demo_folder "Some ''__upload__.tar.gz''" demo_config]
        make_archive_contents[of "''data.log''" glob_match demo_folder "Some ''__upload__.tar.gz''" demo_config]
  by (simp add: demo_folder_def demo_config_def)

section \<open>Claim C5: the acknowledgement waits of one attempt\<close>

text \<open>
  Claim C5 says that each of the three acknowledgement waits of an attempt ends: with the
  expected token, with an error token as the reason of the failure, or with a timeout once
  a fixed budget has elapsed. What the waits of \<^verbatim>\<open>send_once\<close> do:

  \<^item> The wait for \<^verbatim>\<open>OK_CONFIG\<close> and the wait for \<^verbatim>\<open>OK\<close> always end (\<open>wait_ack\<close> is a total
    function): with the expected token, which the agent has sent; or failed with a
    response of the agent that starts with \<^verbatim>\<open>ERR\<close> as the reason; or failed with the
    timeout reason, more than 10 seconds after the start of the wait.
  \<^item> The wait after the bytes of the archive reads no clock. It ends exactly when the
    agent sends a line whose response is \<^verbatim>\<open>DONE\<close> or starts with \<^verbatim>\<open>ERR_CHECKSUM\<close>. When the
    agent stays silent, or sends only \<^verbatim>\<open>PROGRESS\<close> lines or other error tokens, the wait
    never ends, and neither does \<^verbatim>\<open>send_once\<close> (\<open>send_once_blocks\<close>,
    \<open>send_once_agent_silent\<close>).
\<close>

theorem ack_waits_outcomes:
  "((fst (wait_ack dec expected timeout_reason t0 st) = Acked
       \<and> list_ex (replies dec expected) (pending st))
     \<or> (\<exists>tok. fst (wait_ack dec expected timeout_reason t0 st) = Failed tok
           \<and> startswith tok ''ERR'' \<and> list_ex (replies dec tok) (pending st))
     \<or> (fst (wait_ack dec expected timeout_reason t0 st) = Failed timeout_reason
           \<and> clock (snd (wait_ack dec expected timeout_reason t0 st)) - t0 > 10))
   \<and> (wait_done dec st2 = None \<longleftrightarrow> \<not> list_ex (final_reply dec) (pending st2))"
proof
  obtain r st' where w: "wait_ack dec expected timeout_reason t0 st = (r, st')"
    by (cases "wait_ack dec expected timeout_reason t0 st")
  from wait_ack_outcome[OF w]
  show "(fst (wait_ack dec expected timeout_reason t0 st) = Acked
       \<and> list_ex (replies dec expected) (pending st))
     \<or> (\<exists>tok. fst (wait_ack dec expected timeout_reason t0 st) = Failed tok
           \<and> startswith tok ''ERR'' \<and> list_ex (replies dec tok) (pending st))
     \<or> (fst (wait_ack dec expected timeout_reason t0 st) = Failed timeout_reason
           \<and> clock (snd (wait_ack dec expected timeout_reason t0 st)) - t0 > 10)"
    unfolding w by simp
  show "wait_done dec st2 = None \<longleftrightarrow> \<not> list_ex (final_reply dec) (pending st2)"
    by (rule wait_done_None_iff)
qed

theorem ack_waits_outcomes_witness:
  "fst (wait_ack Some ''OK_CONFIG'' ''TIMEOUT_OK_CONFIG'' 0 (demo_ctl [])) = Failed ''TIMEOUT_OK_CONFIG''
   \<and> clock (snd (wait_ack Some ''OK_CONFIG'' ''TIMEOUT_OK_CONFIG'' 0 (demo_ctl []))) > 10
   \<and> wait_done Some (demo_ctl [(''PROGRESS 65536'' @ nl, 1), (''ERR_STREAM boom'' @ nl, 1)]) = None
   \<and> wait_done Some (demo_ctl []) = None"
  using ack_waits_outcomes[of Some "''OK_CONFIG''" "''TIMEOUT_OK_CONFIG''" 0 "demo_ctl []"
          "demo_ctl [(''PROGRESS 65536'' @ nl, 1), (''ERR_STREAM boom'' @ nl, 1)]"]
        ack_waits_outcomes[of Some "''OK_CONFIG''" "''TIMEOUT_OK_CONFIG''" 0 "demo_ctl []" "demo_ctl []"]
  by (simp add: demo_ctl_def response_def strip_def is_space_def startswith_def nl_def)

section \<open>The retry loop of the controller\<close>

lemma retry_loop_all_fail:
  "(\<forall>j. a < j \<and> j \<le> m \<longrightarrow> oc j = Some False) \<Longrightarrow>
   retry_loop oc m a tr = (tr @ backoff_trace [a + 1..m], Some False)"
proof (induction oc m a tr rule: retry_loop.induct)
  case (1 oc m a tr)
  show ?case
  proof (cases "a < m")
    case False
    then show ?thesis by (simp add: backoff_trace_def)
  next
    case True
    have f: "oc (a + 1) = Some False" using 1(2) True by simp
    have ih: "retry_loop oc m (a + 1) (tr @ [Attempt (a + 1)] @ [Sleep (RETRY_BASE_DELAY * 2 ^ nat (a + 1 - 1))])
        = ((tr @ [Attempt (a + 1)] @ [Sleep (RETRY_BASE_DELAY * 2 ^ nat (a + 1 - 1))]) @ backoff_trace [a + 1 + 1..m], Some False)"
      using 1(1)[OF True refl refl f refl refl] 1(2) by simp
    have u: "[a + 1..m] = (a + 1) # [a + 1 + 1..m]" using True by (simp add: upto_rec1)
    show ?thesis
      using True f ih by (subst retry_loop.simps) (simp add: u backoff_trace_def Let_def)
  qed
qed

lemma retry_loop_first:
  "a < k \<Longrightarrow> k \<le> m \<Longrightarrow> (\<forall>j. a < j \<and> j < k \<longrightarrow> oc j = Some False) \<Longrightarrow> oc k \<noteq> Some False \<Longrightarrow>
   retry_loop oc m a tr = (tr @ backoff_trace [a + 1..k - 1] @ [Attempt k], oc k)"
proof (induction oc m a tr rule: retry_loop.induct)
  case (1 oc m a tr)
  have am: "a < m" using 1 by simp
  show ?case
  proof (cases "k = a + 1")
    case True
    then show ?thesis using 1(5) am
      by (subst retry_loop.simps) (auto simp: backoff_trace_def Let_def split: option.splits bool.splits)
  next
    case False
    then have ak: "a + 1 < k" using 1(2) by simp
    have f: "oc (a + 1) = Some False" using 1(4) ak by simp
    have ih: "retry_loop oc m (a + 1) (tr @ [Attempt (a + 1)] @ [Sleep (RETRY_BASE_DELAY * 2 ^ nat (a + 1 - 1))])
        = ((tr @ [Attempt (a + 1)] @ [Sleep (RETRY_BASE_DELAY * 2 ^ nat (a + 1 - 1))]) @ backoff_trace [a + 1 + 1..k - 1] @ [Attempt k], oc k)"
      using 1(1)[OF am refl refl f refl refl ak 1(3) _ 1(5)] 1(4) by simp
    have u: "[a + 1..k - 1] = (a + 1) # [a + 1 + 1..k - 1]" using ak by (simp add: upto_rec1)
    show ?thesis
      using am f ih by (subst retry_loop.simps) (simp add: u backoff_trace_def Let_def)
  qed
qed

lemma retry_loop_attempts:
  "length (filter is_attempt (fst (retry_loop oc m a tr))) \<le> length (filter is_attempt tr) + nat (m - a)"
proof (induction oc m a tr rule: retry_loop.induct)
  case (1 oc m a tr)
  show ?case
  proof (cases "a < m")
    case False
    then show ?thesis by simp
  next
    case True
    show ?thesis
    proof (cases "oc (a + 1)")
      case None
      then show ?thesis using True by (subst retry_loop.simps) (simp add: Let_def)
    next
      case (Some b)
      show ?thesis
      proof (cases b)
        case True
        then show ?thesis using Some \<open>a < m\<close> by (subst retry_loop.simps) (simp add: Let_def)
      next
        case False
        have "length (filter is_attempt (fst (retry_loop oc m (a + 1) (tr @ [Attempt (a + 1)] @ [Sleep (RETRY_BASE_DELAY * 2 ^ nat (a + 1 - 1))]))))
          \<le> length (filter is_attempt (tr @ [Attempt (a + 1)] @ [Sleep (RETRY_BASE_DELAY * 2 ^ nat (a + 1 - 1))])) + nat (m - (a + 1))"
          using 1[OF \<open>a < m\<close> refl refl _ refl refl] Some False by simp
        then show ?thesis using Some False \<open>a < m\<close>
          by (subst retry_loop.simps) (simp add: Let_def)
      qed
    qed
  qed
qed

text \<open>
  Claim C7. The retry loop calls \<^verbatim>\<open>send_once\<close> at most \<open>max_retries\<close> times (five times
  with the default ceiling). When attempt \<open>k\<close> is the first that succeeds, the loop returns
  \<open>True\<close> right after it, having slept \<open>RETRY_BASE_DELAY * 2 ^ (j - 1)\<close> seconds after each
  failed attempt \<open>j < k\<close> and before attempt \<open>j + 1\<close>. When every attempt fails, the loop
  returns \<open>False\<close> after attempt \<open>max_retries\<close> and its sleep.
\<close>

theorem retry_loop_ceiling_backoff:
  "(0 < k \<and> k \<le> m \<and> (\<forall>j. 0 < j \<and> j < k \<longrightarrow> oc j = Some False) \<and> oc k = Some True
      \<longrightarrow> send_with_retries oc m = (backoff_trace [1..k - 1] @ [Attempt k], Some True))
   \<and> ((\<forall>j. 0 < j \<and> j \<le> m \<longrightarrow> oc j = Some False)
      \<longrightarrow> send_with_retries oc m = (backoff_trace [1..m], Some False))
   \<and> length (filter is_attempt (fst (send_with_retries oc m))) \<le> nat m
   \<and> length (filter is_attempt (fst (send_with_retries oc MAX_RETRIES))) \<le> 5"
proof (intro conjI impI)
  assume h: "0 < k \<and> k \<le> m \<and> (\<forall>j. 0 < j \<and> j < k \<longrightarrow> oc j = Some False) \<and> oc k = Some True"
  then show "send_with_retries oc m = (backoff_trace [1..k - 1] @ [Attempt k], Some True)"
    using retry_loop_first[of 0 k m oc "[]"] by (simp add: send_with_retries_def)
next
  assume "\<forall>j. 0 < j \<and> j \<le> m \<longrightarrow> oc j = Some False"
  then show "send_with_retries oc m = (backoff_trace [1..m], Some False)"
    using retry_loop_all_fail[of 0 m oc "[]"] by (simp add: send_with_retries_def)
next
  show "length (filter is_attempt (fst (send_with_retries oc m))) \<le> nat m"
    using retry_loop_attempts[of oc m 0 "[]"] by (simp add: send_with_retries_def)
next
  show "length (filter is_attempt (fst (send_with_retries oc MAX_RETRIES))) \<le> 5"
    using retry_loop_attempts[of oc MAX_RETRIES 0 "[]"]
    by (simp add: send_with_retries_def MAX_RETRIES_def)
qed

theorem retry_loop_ceiling_backoff_witness:
  "send_with_retries (\<lambda>k. Some (k = 3)) MAX_RETRIES
     = ([Attempt 1, Sleep 1, Attempt 2, Sleep 2, Attempt 3], Some True)
   \<and> send_with_retries (\<lambda>k. Some False) MAX_RETRIES
     = ([Attempt 1, Sleep 1, Attempt 2, Sleep 2, Attempt 3, Sleep 4, Attempt 4, Sleep 8,
         Attempt 5, Sleep 16], Some False)"
proof -
  have u2: "[1..2] = [1, 2::int]" and u5: "[1..5] = [1, 2, 3, 4, 5::int]"
    by (simp_all add: upto_rec1)
  have a: "send_with_retries (\<lambda>k. Some (k = 3)) MAX_RETRIES
      = (backoff_trace [1..3 - 1] @ [Attempt 3], Some True)"
    using retry_loop_ceiling_backoff[of 3 MAX_RETRIES "\<lambda>k. Some (k = 3)"]
    by (simp add: MAX_RETRIES_def)
  have b: "send_with_retries (\<lambda>k. Some False) MAX_RETRIES = (backoff_trace [1..MAX_RETRIES], Some False)"
    using retry_loop_ceiling_backoff[of 1 MAX_RETRIES "\<lambda>k. Some False"]
    by simp
  show ?thesis
    using a b by (simp add: u2 u5 backoff_trace_def RETRY_BASE_DELAY_def MAX_RETRIES_def)
qed

end
